theory Spec2Isabelle
  imports Main "HOL-Library.Sublist" "HOL-Library.AList" "HOL-Library.Multiset"
begin

section \<open>JavaScript values\<close>

text \<open>
  Strings are character lists. \<open>String.prototype.startsWith\<close> is \<^const>\<open>prefix\<close>,
  \<open>includes\<close> is \<^const>\<open>sublist\<close> (a contiguous infix) and a test against a regular
  expression anchored with \<open>$\<close> is \<^const>\<open>suffix\<close>. A string is truthy when it is not
  empty.
\<close>

abbreviation backslash :: char where "backslash \<equiv> CHR 0x5C"
abbreviation singleQuote :: char where "singleQuote \<equiv> CHR 0x27"
abbreviation doubleQuote :: char where "doubleQuote \<equiv> CHR 0x22"

text \<open>
  The values that reach the server as tool arguments or as parsed JSON. A number is an
  integer or some other number (a fraction or an infinity); the code asks of a number only
  whether it is an integer and how an integer compares with zero. An object is the list of
  its own properties.
\<close>

datatype jsval =
    JUndefined
  | JNull
  | JBool bool
  | JInt int
  | JNonInt
  | JStr string
  | JArr "jsval list"
  | JObj "(string \<times> jsval) list"

fun typeof :: "jsval \<Rightarrow> string" where
  "typeof JUndefined = ''undefined''"
| "typeof JNull = ''object''"
| "typeof (JBool b) = ''boolean''"
| "typeof (JInt i) = ''number''"
| "typeof JNonInt = ''number''"
| "typeof (JStr s) = ''string''"
| "typeof (JArr xs) = ''object''"
| "typeof (JObj fs) = ''object''"

fun truthy :: "jsval \<Rightarrow> bool" where
  "truthy JUndefined = False"
| "truthy JNull = False"
| "truthy (JBool b) = b"
| "truthy (JInt i) = (i \<noteq> 0)"
| "truthy JNonInt = True"
| "truthy (JStr s) = (s \<noteq> [])"
| "truthy (JArr xs) = True"
| "truthy (JObj fs) = True"

text \<open>
  Reading a named property of a value that is neither \<open>undefined\<close> nor \<open>null\<close>: an
  object gives the property's value, and a missing property, or any property with one of
  the names used here on an array or a primitive, is \<open>undefined\<close>.
\<close>

fun getProp :: "jsval \<Rightarrow> string \<Rightarrow> jsval" where
  "getProp (JObj fs) k = (case map_of fs k of Some v \<Rightarrow> v | None \<Rightarrow> JUndefined)"
| "getProp v k = JUndefined"

fun isInteger :: "jsval \<Rightarrow> bool" where
  "isInteger (JInt i) = True"
| "isInteger v = False"

text \<open>\<open>x < n\<close> and \<open>x <= n\<close> for a value already known to be an integer.\<close>

fun numLess :: "jsval \<Rightarrow> int \<Rightarrow> bool" where
  "numLess (JInt i) n = (i < n)"
| "numLess v n = False"

fun numLessEq :: "jsval \<Rightarrow> int \<Rightarrow> bool" where
  "numLessEq (JInt i) n = (i \<le> n)"
| "numLessEq v n = False"

fun isArray :: "jsval \<Rightarrow> bool" where
  "isArray (JArr xs) = True"
| "isArray v = False"

text \<open>\<open>Array.prototype.join\<close> on a list of strings.\<close>

fun joinWith :: "string \<Rightarrow> string list \<Rightarrow> string" where
  "joinWith sep [] = []"
| "joinWith sep [x] = x"
| "joinWith sep (x # y # zs) = x @ sep @ joinWith sep (y # zs)"

text \<open>The decimal text of an integer, as a template literal prints it.\<close>

fun digitsOf :: "nat \<Rightarrow> string" where
  "digitsOf n =
     (if n < 10 then [char_of (48 + n)] else digitsOf (n div 10) @ [char_of (48 + n mod 10)])"

definition numberToString :: "int \<Rightarrow> string" where
  "numberToString i = (if i < 0 then ''-'' @ digitsOf (nat (- i)) else digitsOf (nat i))"

subsection \<open>JSON.stringify\<close>

text \<open>
  The text that \<open>JSON.stringify(value)\<close> gives, as ECMAScript defines it
  (\<open>QuoteJSONString\<close>, \<open>SerializeJSONProperty\<close>, \<open>SerializeJSONArray\<close>,
  \<open>SerializeJSONObject\<close>, with no indentation), for strings of 8-bit characters. A quoted
  string escapes the double quote, the backslash and the control characters.
\<close>

definition hexDigit :: "nat \<Rightarrow> char" where
  "hexDigit n = (if n < 10 then char_of (48 + n) else char_of (87 + n))"

definition quoteJSONChar :: "char \<Rightarrow> string" where
  "quoteJSONChar c =
     (let n = (of_char c :: nat) in
      if n = 8 then [backslash, CHR ''b'']
      else if n = 9 then [backslash, CHR ''t'']
      else if n = 10 then [backslash, CHR ''n'']
      else if n = 12 then [backslash, CHR ''f'']
      else if n = 13 then [backslash, CHR ''r'']
      else if c = doubleQuote then [backslash, doubleQuote]
      else if c = backslash then [backslash, backslash]
      else if n < 32 then
        [backslash, CHR ''u'', CHR ''0'', CHR ''0'', hexDigit (n div 16), hexDigit (n mod 16)]
      else [c])"

definition quoteJSONString :: "string \<Rightarrow> string" where
  "quoteJSONString s = [doubleQuote] @ concat (map quoteJSONChar s) @ [doubleQuote]"

text \<open>
  \<open>None\<close> is \<open>undefined\<close>: an \<open>undefined\<close> value has no text, a member of an object with
  such a value is left out, and an element of an array with such a value is printed as
  \<open>null\<close>. \<open>JNonInt\<close> keeps no digits; it is printed as \<open>null\<close>, the text of \<open>NaN\<close> and
  of the infinities.
\<close>

fun serializeJSONProperty :: "jsval \<Rightarrow> string option"
  and serializeJSONArray :: "jsval list \<Rightarrow> string list"
  and serializeJSONObject :: "(string \<times> jsval) list \<Rightarrow> string list" where
  "serializeJSONProperty JUndefined = None"
| "serializeJSONProperty JNull = Some ''null''"
| "serializeJSONProperty (JBool b) = Some (if b then ''true'' else ''false'')"
| "serializeJSONProperty (JInt i) = Some (numberToString i)"
| "serializeJSONProperty JNonInt = Some ''null''"
| "serializeJSONProperty (JStr s) = Some (quoteJSONString s)"
| "serializeJSONProperty (JArr xs) = Some (''['' @ joinWith '','' (serializeJSONArray xs) @ '']'')"
| "serializeJSONProperty (JObj fs) = Some (''{'' @ joinWith '','' (serializeJSONObject fs) @ ''}'')"
| "serializeJSONArray [] = []"
| "serializeJSONArray (x # xs) =
     (case serializeJSONProperty x of None \<Rightarrow> ''null'' | Some t \<Rightarrow> t) # serializeJSONArray xs"
| "serializeJSONObject [] = []"
| "serializeJSONObject ((k, v) # fs) =
     (case serializeJSONProperty v of
        None \<Rightarrow> serializeJSONObject fs
      | Some t \<Rightarrow> (quoteJSONString k @ '':'' @ t) # serializeJSONObject fs)"

text \<open>For \<open>undefined\<close>, where \<open>JSON.stringify\<close> returns no string, the text is empty here.\<close>

definition JSON_stringify :: "jsval \<Rightarrow> string" where
  "JSON_stringify v = (case serializeJSONProperty v of None \<Rightarrow> [] | Some t \<Rightarrow> t)"

section \<open>index.ts: the tool-call handler\<close>

subsection \<open>validateToolArgs\<close>

text \<open>
  \<open>Inl msg\<close> is \<open>throw new Error(msg)\<close>; \<open>Inr ()\<close> is a normal return. The cases follow
  the \<open>switch\<close> on the tool name, the checks inside a case follow the order of the source.
\<close>

definition invalidPosition :: "jsval \<Rightarrow> bool" where
  "invalidPosition v \<longleftrightarrow> typeof v \<noteq> ''number'' \<or> \<not> isInteger v \<or> numLess v 0"

definition validatePositionArgs :: "jsval \<Rightarrow> string + unit" where
  "validatePositionArgs args =
     (if typeof (getProp args ''file_path'') \<noteq> ''string'' then
        Inl ''Invalid file_path: must be a string''
      else if invalidPosition (getProp args ''line'') then
        Inl ''Invalid line: must be a non-negative integer''
      else if invalidPosition (getProp args ''column'') then
        Inl ''Invalid column: must be a non-negative integer''
      else Inr ())"

definition validateToolArgs :: "string \<Rightarrow> jsval \<Rightarrow> string + unit" where
  "validateToolArgs name args =
     (if \<not> truthy args \<or> typeof args \<noteq> ''object'' then
        Inl ''Invalid arguments: must be an object''
      else if name = ''find_definition'' \<or> name = ''find_references'' \<or> name = ''get_hover''
              \<or> name = ''find_implementations'' then
        (case validatePositionArgs args of
           Inl msg \<Rightarrow> Inl msg
         | Inr u \<Rightarrow>
             if name = ''find_references''
                \<and> getProp args ''include_declaration'' \<noteq> JUndefined
                \<and> typeof (getProp args ''include_declaration'') \<noteq> ''boolean'' then
               Inl ''Invalid include_declaration: must be a boolean''
             else Inr ())
      else if name = ''workspace_symbol_search'' then
        (if typeof (getProp args ''query'') \<noteq> ''string'' then
           Inl ''Invalid query: must be a string''
         else if getProp args ''limit'' \<noteq> JUndefined
                 \<and> (typeof (getProp args ''limit'') \<noteq> ''number''
                      \<or> \<not> isInteger (getProp args ''limit'')
                      \<or> numLessEq (getProp args ''limit'') 0) then
           Inl ''Invalid limit: must be a positive integer''
         else if getProp args ''include_external'' \<noteq> JUndefined
                 \<and> typeof (getProp args ''include_external'') \<noteq> ''boolean'' then
           Inl ''Invalid include_external: must be a boolean''
         else if getProp args ''exclude_paths'' \<noteq> JUndefined
                 \<and> \<not> isArray (getProp args ''exclude_paths'') then
           Inl ''Invalid exclude_paths: must be an array of strings''
         else Inr ())
      else if name = ''get_document_symbols'' then
        (if typeof (getProp args ''file_path'') \<noteq> ''string'' then
           Inl ''Invalid file_path: must be a string''
         else Inr ())
      else if name = ''get_diagnostics'' then
        (if typeof (getProp args ''file_path'') \<noteq> ''string'' then
           Inl ''Invalid file_path: must be a string''
         else if getProp args ''force_refresh'' \<noteq> JUndefined
                 \<and> typeof (getProp args ''force_refresh'') \<noteq> ''boolean'' then
           Inl ''Invalid force_refresh: must be a boolean''
         else Inr ())
      else if name = ''get_call_hierarchy'' \<or> name = ''get_type_hierarchy'' then
        validatePositionArgs args
      else Inr ())"

text \<open>The tools whose arguments carry a position (a line and a column).\<close>

definition positionTools :: "string list" where
  "positionTools = [''find_definition'', ''find_references'', ''get_hover'',
     ''find_implementations'', ''get_call_hierarchy'', ''get_type_hierarchy'']"

subsection \<open>The CallToolRequestSchema handler\<close>

record request =
  req_name :: string
  req_arguments :: jsval

text \<open>
  What the handler returns: the text of its single content item and the \<open>isError\<close> flag
  (absent on success, read as false).
\<close>

record response =
  content_text :: string
  isError :: bool

text \<open>
  The collaborators of one call, none of them in the handler's own code: how
  \<open>ensureClangdInitialized\<close> ends (\<open>Some msg\<close>: it rejects), whether the globals
  \<open>clangdManager\<close>, \<open>fileTracker\<close> and \<open>diagnosticsCache\<close> are set afterwards, and how
  the tool function called for a tool name and arguments ends (\<open>Inl msg\<close>: it rejects with
  an error of that message, \<open>Inr text\<close>: it resolves to the text).
\<close>

record collaborators =
  initOutcome :: "string option"
  managerSet :: bool
  trackerSet :: bool
  cacheSet :: bool
  runTool :: "string \<Rightarrow> jsval \<Rightarrow> string + string"

text \<open>
  What a call does outside the handler: it awaits \<open>ensureClangdInitialized\<close> (which may
  start the subprocess and talk to it) and it calls a tool function (which sends requests
  to the subprocess).
\<close>

datatype effect = EnsureInitialized | ToolCalled string

definition toolNames :: "string list" where
  "toolNames = [''find_definition'', ''find_references'', ''get_hover'',
     ''workspace_symbol_search'', ''find_implementations'', ''get_document_symbols'',
     ''get_diagnostics'', ''get_call_hierarchy'', ''get_type_hierarchy'']"

text \<open>
  The body of the \<open>try\<close> block: \<open>Inl msg\<close> when it throws an error with that message,
  \<open>Inr text\<close> when it returns the content \<open>text\<close>; with it, the effects up to that point.
\<close>

definition toolCallBody :: "collaborators \<Rightarrow> request \<Rightarrow> (string + string) \<times> effect list" where
  "toolCallBody co request =
     (let name = req_name request; args = req_arguments request in
      if \<not> truthy args then (Inl ''Missing arguments for tool call'', [])
      else
        case validateToolArgs name args of
          Inl msg \<Rightarrow> (Inl msg, [])
        | Inr u \<Rightarrow>
            (case initOutcome co of
               Some msg \<Rightarrow> (Inl msg, [EnsureInitialized])
             | None \<Rightarrow>
                 if \<not> managerSet co \<or> \<not> trackerSet co then
                   (Inl ''Clangd not initialized'', [EnsureInitialized])
                 else if name \<in> set toolNames then
                   (if name = ''get_diagnostics'' \<and> \<not> cacheSet co then
                      (Inl ''Diagnostics cache not initialized'', [EnsureInitialized])
                    else (runTool co name args, [EnsureInitialized, ToolCalled name]))
                 else (Inl (''Unknown tool: '' @ name), [EnsureInitialized])))"

text \<open>
  The \<open>catch\<close> block. \<open>stringify\<close> is \<open>JSON.stringify\<close>, a parameter; it is applied to the
  object \<open>{error: true, message}\<close>.
\<close>

definition errorBody :: "string \<Rightarrow> jsval" where
  "errorBody message = JObj [(''error'', JBool True), (''message'', JStr message)]"

definition toolCallHandler ::
  "(jsval \<Rightarrow> string) \<Rightarrow> collaborators \<Rightarrow> request \<Rightarrow> response \<times> effect list" where
  "toolCallHandler stringify co request =
     (case toolCallBody co request of
        (Inr text, effects) \<Rightarrow> (\<lparr>content_text = text, isError = False\<rparr>, effects)
      | (Inl message, effects) \<Rightarrow>
          (\<lparr>content_text = stringify (errorBody message), isError = True\<rparr>, effects))"

subsection \<open>The process that hosts the handler\<close>

text \<open>
  The process runs until it exits, and nothing in the handler makes it exit: the only calls
  of \<open>process.exit\<close> are in the signal handler. A first \<open>SIGINT\<close> or \<open>SIGTERM\<close> sets
  \<open>isShuttingDown\<close> and starts the shutdown, at whose end the process exits; a second one
  exits at once. \<open>host_responses\<close> are the responses returned so far, in order.
\<close>

datatype hostPhase = Running | ShuttingDown | Exited

record host =
  host_phase :: hostPhase
  host_responses :: "response list"

definition newHost :: host where
  "newHost = \<lparr>host_phase = Running, host_responses = []\<rparr>"

datatype hostEvent =
    ToolCall collaborators request
  | Signal
  | ShutdownEnded

text \<open>
  A request that arrives while the process runs gets the handler's response. While
  \<open>isShuttingDown\<close> is set, \<open>ensureClangdInitialized\<close> throws \<open>Server is shutting down\<close>
  whatever the collaborators would have done.
\<close>

fun hostStep :: "(jsval \<Rightarrow> string) \<Rightarrow> host \<Rightarrow> hostEvent \<Rightarrow> host" where
  "hostStep stringify h (ToolCall co request) =
     (case host_phase h of
        Running \<Rightarrow>
          h\<lparr>host_responses := host_responses h @ [fst (toolCallHandler stringify co request)]\<rparr>
      | ShuttingDown \<Rightarrow>
          h\<lparr>host_responses := host_responses h
             @ [fst (toolCallHandler stringify
                  (co\<lparr>initOutcome := Some ''Server is shutting down''\<rparr>) request)]\<rparr>
      | Exited \<Rightarrow> h)"
| "hostStep stringify h Signal =
     (case host_phase h of
        Running \<Rightarrow> h\<lparr>host_phase := ShuttingDown\<rparr>
      | ShuttingDown \<Rightarrow> h\<lparr>host_phase := Exited\<rparr>
      | Exited \<Rightarrow> h)"
| "hostStep stringify h ShutdownEnded =
     (case host_phase h of
        Running \<Rightarrow> h
      | ShuttingDown \<Rightarrow> h\<lparr>host_phase := Exited\<rparr>
      | Exited \<Rightarrow> h)"

definition hostRun :: "(jsval \<Rightarrow> string) \<Rightarrow> hostEvent list \<Rightarrow> host \<Rightarrow> host" where
  "hostRun stringify events h = foldl (hostStep stringify) h events"

text \<open>
  When nothing is thrown in the \<open>try\<close> block: the arguments are present and valid, the
  initialization succeeds and has set the globals, the tool is known, and the tool function
  resolves.
\<close>

definition callSucceeds :: "collaborators \<Rightarrow> request \<Rightarrow> bool" where
  "callSucceeds co request \<longleftrightarrow>
     truthy (req_arguments request)
     \<and> validateToolArgs (req_name request) (req_arguments request) = Inr ()
     \<and> initOutcome co = None \<and> managerSet co \<and> trackerSet co
     \<and> req_name request \<in> set toolNames
     \<and> \<not> (req_name request = ''get_diagnostics'' \<and> \<not> cacheSet co)
     \<and> (\<exists>text. runTool co (req_name request) (req_arguments request) = Inr text)"

text \<open>The limit the handler passes to \<open>workspaceSymbolSearch\<close>: \<open>args.limit || 100\<close>.\<close>

definition handlerLimit :: "jsval \<Rightarrow> jsval" where
  "handlerLimit args =
     (if truthy (getProp args ''limit'') then getProp args ''limit'' else JInt 100)"

section \<open>config-detector.ts: clangd arguments\<close>

subsection \<open>parseShellArgs\<close>

record parse_state =
  p_args :: "string list"
  p_current :: string
  p_inSingleQuote :: bool
  p_inDoubleQuote :: bool
  p_escaped :: bool

definition parse_init :: parse_state where
  "parse_init = \<lparr>p_args = [], p_current = [], p_inSingleQuote = False, p_inDoubleQuote = False,
     p_escaped = False\<rparr>"

text \<open>One iteration of the character loop; every \<open>continue\<close> is a branch.\<close>

definition parse_char :: "parse_state \<Rightarrow> char \<Rightarrow> parse_state" where
  "parse_char s c =
     (if p_escaped s then s\<lparr>p_current := p_current s @ [c], p_escaped := False\<rparr>
      else if c = backslash \<and> (p_inDoubleQuote s \<or> \<not> p_inSingleQuote s) then s\<lparr>p_escaped := True\<rparr>
      else if c = singleQuote \<and> \<not> p_inDoubleQuote s then s\<lparr>p_inSingleQuote := \<not> p_inSingleQuote s\<rparr>
      else if c = doubleQuote \<and> \<not> p_inSingleQuote s then s\<lparr>p_inDoubleQuote := \<not> p_inDoubleQuote s\<rparr>
      else if c = CHR '' '' \<and> \<not> p_inSingleQuote s \<and> \<not> p_inDoubleQuote s then
        (if p_current s \<noteq> [] then s\<lparr>p_args := p_args s @ [p_current s], p_current := []\<rparr> else s)
      else s\<lparr>p_current := p_current s @ [c]\<rparr>)"

definition parseShellArgs :: "string \<Rightarrow> string list" where
  "parseShellArgs input =
     (let s = foldl parse_char parse_init input
      in if p_current s \<noteq> [] then p_args s @ [p_current s] else p_args s)"

subsection \<open>generateClangdArgs\<close>

text \<open>The two variables of \<open>process.env\<close> that the function reads.\<close>

record environment =
  CLANGD_ARGS :: "string option"
  CLANGD_LOG_LEVEL :: "string option"

text \<open>\<open>if (!args.some(arg => arg.startsWith(p))) args.push(v)\<close>\<close>

definition pushUnlessPresent :: "string \<Rightarrow> string \<Rightarrow> string list \<Rightarrow> string list" where
  "pushUnlessPresent p v as = (if \<not> list_ex (prefix p) as then as @ [v] else as)"

text \<open>The arguments parsed from \<open>CLANGD_ARGS\<close>: none when the variable is unset or empty.\<close>

definition userArgs :: "environment \<Rightarrow> string list" where
  "userArgs env =
     (case CLANGD_ARGS env of
        None \<Rightarrow> []
      | Some s \<Rightarrow> if s \<noteq> [] then parseShellArgs s else [])"

text \<open>\<open>process.env.CLANGD_LOG_LEVEL || 'error'\<close>\<close>

definition logLevel :: "environment \<Rightarrow> string" where
  "logLevel env =
     (case CLANGD_LOG_LEVEL env of
        None \<Rightarrow> ''error''
      | Some l \<Rightarrow> if l \<noteq> [] then l else ''error'')"

text \<open>
  \<open>dirname\<close> is Node's \<open>path.dirname\<close>, a parameter. The branch on
  \<open>isChromiumProject\<close> only writes a log line.
\<close>

definition generateClangdArgs ::
  "(string \<Rightarrow> string) \<Rightarrow> environment \<Rightarrow> bool \<Rightarrow> string option \<Rightarrow> string list" where
  "generateClangdArgs dirname env isChromiumProject compileCommandsPath =
     (let a0 = userArgs env;
          a1 = (case compileCommandsPath of
                  None \<Rightarrow> a0
                | Some p \<Rightarrow> if p \<noteq> [] then a0 @ [''--compile-commands-dir='' @ dirname p] else a0);
          a2 = pushUnlessPresent ''--background-index'' ''--background-index=false'' a1;
          a3 = pushUnlessPresent ''--limit-references'' ''--limit-references=1000'' a2;
          a4 = pushUnlessPresent ''--limit-results'' ''--limit-results=1000'' a3;
          a5 = pushUnlessPresent ''--pch-storage'' ''--pch-storage=memory'' a4;
          a6 = pushUnlessPresent ''--clang-tidy'' ''--clang-tidy=false'' a5
      in pushUnlessPresent ''--log'' (''--log='' @ logLevel env) a6)"

text \<open>The argument that names the directory of \<open>compile_commands.json\<close>, when one was found.\<close>

definition compileCommandsArg :: "(string \<Rightarrow> string) \<Rightarrow> string option \<Rightarrow> string list" where
  "compileCommandsArg dirname compileCommandsPath =
     (case compileCommandsPath of
        None \<Rightarrow> []
      | Some p \<Rightarrow> if p \<noteq> [] then [''--compile-commands-dir='' @ dirname p] else [])"

section \<open>cmake-detector.ts: source files of compile_commands.json\<close>

definition DEFAULT_EXCLUDE_PATHS :: "string list" where
  "DEFAULT_EXCLUDE_PATHS =
     [''_deps/'', ''third_party/'', ''libs/'', ''vendor/'', ''external/'', ''build/'']"

definition compileCommandsCandidates :: "string list" where
  "compileCommandsCandidates =
     [''compile_commands.json'',
      ''build/compile_commands.json'',
      ''cmake-build-debug/compile_commands.json'',
      ''cmake-build-release/compile_commands.json'',
      ''out/build/compile_commands.json'',
      ''.build/compile_commands.json'']"

text \<open>
  \<open>findCompileCommands\<close> of this file: the first candidate that exists. \<open>existsSync\<close> and
  \<open>join\<close> are Node's, parameters here.
\<close>

definition findCompileCommands ::
  "(string \<Rightarrow> bool) \<Rightarrow> (string \<Rightarrow> string \<Rightarrow> string) \<Rightarrow> string \<Rightarrow> string option" where
  "findCompileCommands existsSync join projectRoot =
     find existsSync (map (join projectRoot) compileCommandsCandidates)"

text \<open>
  The regular expression \<open>/\.(c|cc|cpp|cxx|c\+\+|m|mm)$/i\<close>: the path ends with one of the
  extensions, letters compared without case. Only ASCII letters occur in the pattern, and
  without the \<open>u\<close> flag no other character matches them.
\<close>

definition lowerAscii :: "char \<Rightarrow> char" where
  "lowerAscii c =
     (let n = (of_char c :: nat) in if 65 \<le> n \<and> n \<le> 90 then char_of (n + 32) else c)"

definition sourceExtensions :: "string list" where
  "sourceExtensions = [''.c'', ''.cc'', ''.cpp'', ''.cxx'', ''.c++'', ''.m'', ''.mm'']"

definition isSourceFile :: "string \<Rightarrow> bool" where
  "isSourceFile filePath \<longleftrightarrow>
     list_ex (\<lambda>ext. suffix ext (map lowerAscii filePath)) sourceExtensions"

text \<open>
  \<open>allExcludes.some(exc => relativePath.startsWith(exc) || relativePath.includes('/' + exc))\<close>
\<close>

definition isExcludedPath :: "string list \<Rightarrow> string \<Rightarrow> bool" where
  "isExcludedPath allExcludes relativePath \<longleftrightarrow>
     list_ex (\<lambda>exc. prefix exc relativePath \<or> sublist (''/'' @ exc) relativePath) allExcludes"

text \<open>
  The absolute path of one entry, or \<open>None\<close> when the step throws a \<open>TypeError\<close>: the
  entry is \<open>null\<close>, its \<open>file\<close> is not a string (so it has no \<open>startsWith\<close>), or the
  file is relative and \<open>directory\<close> is not a string (\<open>path.resolve\<close> refuses it).
  \<open>resolve\<close> is Node's \<open>path.resolve\<close>, a parameter.
\<close>

definition resolveFilePath :: "(string \<Rightarrow> string \<Rightarrow> string) \<Rightarrow> jsval \<Rightarrow> string option" where
  "resolveFilePath resolve cmd =
     (case cmd of
        JUndefined \<Rightarrow> None
      | JNull \<Rightarrow> None
      | _ \<Rightarrow>
          (case getProp cmd ''file'' of
             JStr file \<Rightarrow>
               if prefix ''/'' file then Some file
               else (case getProp cmd ''directory'' of
                       JStr directory \<Rightarrow> Some (resolve directory file)
                     | _ \<Rightarrow> None)
           | _ \<Rightarrow> None))"

text \<open>\<open>Set.prototype.add\<close> on a set kept in insertion order.\<close>

definition setAdd :: "'a \<Rightarrow> 'a list \<Rightarrow> 'a list" where
  "setAdd x xs = (if x \<in> set xs then xs else xs @ [x])"

text \<open>The body of the loop over the entries; \<open>None\<close> when it throws.\<close>

definition scanCommand ::
  "(string \<Rightarrow> string \<Rightarrow> string) \<Rightarrow> string \<Rightarrow> string list \<Rightarrow> string list \<Rightarrow> jsval
    \<Rightarrow> string list option" where
  "scanCommand resolve projectRoot allExcludes sources cmd =
     (case resolveFilePath resolve cmd of
        None \<Rightarrow> None
      | Some filePath \<Rightarrow>
          if \<not> prefix projectRoot filePath then Some sources
          else if isExcludedPath allExcludes (drop (length projectRoot + 1) filePath) then
            Some sources
          else if isSourceFile filePath then Some (setAdd filePath sources)
          else Some sources)"

fun scanCommands ::
  "(string \<Rightarrow> string \<Rightarrow> string) \<Rightarrow> string \<Rightarrow> string list \<Rightarrow> string list \<Rightarrow> jsval list
    \<Rightarrow> string list option" where
  "scanCommands resolve projectRoot allExcludes sources [] = Some sources"
| "scanCommands resolve projectRoot allExcludes sources (cmd # cmds) =
     (case scanCommand resolve projectRoot allExcludes sources cmd of
        None \<Rightarrow> None
      | Some sources' \<Rightarrow> scanCommands resolve projectRoot allExcludes sources' cmds)"

text \<open>
  What \<open>for (const cmd of commands)\<close> iterates over: the elements of an array, the
  characters of a string; any other value is not iterable and the loop throws.
\<close>

definition iterate :: "jsval \<Rightarrow> jsval list option" where
  "iterate commands =
     (case commands of
        JArr xs \<Rightarrow> Some xs
      | JStr s \<Rightarrow> Some (map (\<lambda>c. JStr [c]) s)
      | _ \<Rightarrow> None)"

text \<open>
  \<open>readJson path\<close> is \<open>JSON.parse(await readFile(path, 'utf-8'))\<close>: \<open>None\<close> when the file
  cannot be read or is not JSON. Every failure inside the \<open>try\<close> block ends in the
  \<open>catch\<close>, which returns the empty list.
\<close>

definition detectCMakeSources ::
  "(string \<Rightarrow> bool) \<Rightarrow> (string \<Rightarrow> string \<Rightarrow> string) \<Rightarrow> (string \<Rightarrow> jsval option)
    \<Rightarrow> (string \<Rightarrow> string \<Rightarrow> string) \<Rightarrow> string \<Rightarrow> string list \<Rightarrow> string list" where
  "detectCMakeSources existsSync join readJson resolve projectRoot excludePaths =
     (let allExcludes = DEFAULT_EXCLUDE_PATHS @ excludePaths in
      case findCompileCommands existsSync join projectRoot of
        None \<Rightarrow> []
      | Some compileCommandsPath \<Rightarrow>
          (case readJson compileCommandsPath of
             None \<Rightarrow> []
           | Some commands \<Rightarrow>
               (case iterate commands of
                  None \<Rightarrow> []
                | Some cmds \<Rightarrow>
                    (case scanCommands resolve projectRoot allExcludes [] cmds of
                       None \<Rightarrow> []
                     | Some sources \<Rightarrow> sources))))"

text \<open>
  What the loop keeps about every path it has collected: the tests that let it in, and
  where it came from (an absolute \<open>file\<close> entry or \<open>path.resolve\<close>).
\<close>

definition goodSource ::
  "(string \<Rightarrow> string \<Rightarrow> string) \<Rightarrow> string \<Rightarrow> string list \<Rightarrow> string \<Rightarrow> bool" where
  "goodSource resolve projectRoot allExcludes p \<longleftrightarrow>
     prefix projectRoot p \<and> isSourceFile p
     \<and> \<not> isExcludedPath allExcludes (drop (length projectRoot + 1) p)
     \<and> (prefix ''/'' p \<or> (\<exists>directory file. p = resolve directory file))"

text \<open>The header extensions (those that \<open>getLanguageId\<close> of file-tracker.ts names).\<close>

definition headerExtensions :: "string list" where
  "headerExtensions = [''.h'', ''.hh'', ''.hpp'', ''.hxx'', ''.h++'']"

section \<open>tools/workspace-symbol.ts: workspaceSymbolSearch\<close>

text \<open>A \<open>SymbolInformation\<close> of the response, with the fields the function reads.\<close>

record symbolInformation =
  sym_name :: string
  sym_kind :: int
  sym_uri :: string
  sym_line :: int
  sym_character :: int
  sym_containerName :: "string option"

record searchOptions =
  opt_query :: string
  opt_limit :: "int option"
  opt_includeExternal :: "bool option"
  opt_excludePaths :: "string list option"

record formattedSymbol =
  f_name :: string
  f_kind :: string
  f_file :: string
  f_line :: int
  f_column :: int
  f_container :: "string option"
  f_uri :: string

text \<open>
  The object the function serialises with \<open>JSON.stringify\<close> and returns: \<open>NotFound\<close> is
  \<open>{found: false, message}\<close>, \<open>Found\<close> is the object with \<open>found: true\<close>.
\<close>

record foundPayload =
  r_count :: nat
  r_returned :: nat
  r_truncated :: bool
  r_projectRoot :: string
  r_includeExternal :: bool
  r_excludePaths :: "string list option"
  r_symbols :: "formattedSymbol list"

datatype searchResult = NotFound string | Found foundPayload

text \<open>\<open>xs.slice(0, limit)\<close> for an integer \<open>limit\<close>: a negative one counts from the end.\<close>

definition sliceTo :: "'a list \<Rightarrow> int \<Rightarrow> 'a list" where
  "sliceTo xs limit =
     (if limit < 0 then take (nat (max (int (length xs) + limit) 0)) xs else take (nat limit) xs)"

text \<open>
  \<open>uriToPath\<close> (utils/uri.ts) and the table \<open>symbolKindNames\<close> (utils/lsp-types.ts) are
  parameters.
\<close>

definition filterToProject ::
  "(string \<Rightarrow> string) \<Rightarrow> string \<Rightarrow> bool \<Rightarrow> symbolInformation list \<Rightarrow> symbolInformation list" where
  "filterToProject uriToPath projectRoot includeExternal symbols =
     (if \<not> includeExternal \<and> projectRoot \<noteq> [] then
        filter (\<lambda>symbol. prefix projectRoot (uriToPath (sym_uri symbol))) symbols
      else symbols)"

definition matchesExclude :: "string \<Rightarrow> string \<Rightarrow> string \<Rightarrow> bool" where
  "matchesExclude projectRoot filePath excludePath =
     (if prefix ''/'' excludePath then prefix excludePath filePath
      else (let relativePath = drop (length projectRoot + 1) filePath
            in prefix excludePath relativePath \<or> sublist (''/'' @ excludePath) relativePath))"

definition applyExcludePaths ::
  "(string \<Rightarrow> string) \<Rightarrow> string \<Rightarrow> string list \<Rightarrow> symbolInformation list \<Rightarrow> symbolInformation list" where
  "applyExcludePaths uriToPath projectRoot excludePaths symbols =
     (if excludePaths \<noteq> [] then
        filter (\<lambda>symbol. \<not> list_ex (matchesExclude projectRoot (uriToPath (sym_uri symbol))) excludePaths)
          symbols
      else symbols)"

text \<open>The symbols left after both filters.\<close>

definition filteredSymbols ::
  "(string \<Rightarrow> string) \<Rightarrow> string \<Rightarrow> bool \<Rightarrow> string list \<Rightarrow> symbolInformation list
    \<Rightarrow> symbolInformation list" where
  "filteredSymbols uriToPath projectRoot includeExternal excludePaths symbols =
     applyExcludePaths uriToPath projectRoot excludePaths
       (filterToProject uriToPath projectRoot includeExternal symbols)"

definition formatSymbol ::
  "(string \<Rightarrow> string) \<Rightarrow> (int \<Rightarrow> string option) \<Rightarrow> symbolInformation \<Rightarrow> formattedSymbol" where
  "formatSymbol uriToPath symbolKindNames symbol =
     \<lparr>f_name = sym_name symbol,
      f_kind = (case symbolKindNames (sym_kind symbol) of
                  Some n \<Rightarrow> if n \<noteq> [] then n else ''Unknown('' @ numberToString (sym_kind symbol) @ '')''
                | None \<Rightarrow> ''Unknown('' @ numberToString (sym_kind symbol) @ '')''),
      f_file = uriToPath (sym_uri symbol),
      f_line = sym_line symbol,
      f_column = sym_character symbol,
      f_container = sym_containerName symbol,
      f_uri = sym_uri symbol\<rparr>"

definition notFoundMessage :: "string \<Rightarrow> string \<Rightarrow> bool \<Rightarrow> string list \<Rightarrow> string" where
  "notFoundMessage query projectRoot includeExternal excludePaths =
     (let filterInfo = (if \<not> includeExternal then '' in project '' @ [singleQuote] @ projectRoot @ [singleQuote]
                        else []);
          excludeInfo = (if excludePaths \<noteq> [] then '' (excluding: '' @ joinWith '', '' excludePaths @ '')''
                         else [])
      in ''No symbols found matching '' @ [singleQuote] @ query @ [singleQuote] @ filterInfo @ excludeInfo)"

text \<open>
  \<open>requestResult\<close> is how \<open>withRetry\<close> around the \<open>workspace/symbol\<close> request ends:
  \<open>Inl msg\<close> when it rejects (and so does the function), \<open>Inr None\<close> for a \<open>null\<close> result,
  \<open>Inr (Some symbols)\<close> for a list. The three definitions before it are the defaults of
  the destructured options: a limit of 100, \<open>includeExternal = false\<close> and no exclude paths.
\<close>

definition limitOf :: "searchOptions \<Rightarrow> int" where
  "limitOf options = (case opt_limit options of None \<Rightarrow> 100 | Some l \<Rightarrow> l)"

definition includeExternalOf :: "searchOptions \<Rightarrow> bool" where
  "includeExternalOf options = (case opt_includeExternal options of None \<Rightarrow> False | Some b \<Rightarrow> b)"

definition excludePathsOf :: "searchOptions \<Rightarrow> string list" where
  "excludePathsOf options = (case opt_excludePaths options of None \<Rightarrow> [] | Some ps \<Rightarrow> ps)"

definition workspaceSymbolSearch ::
  "(string \<Rightarrow> string) \<Rightarrow> (int \<Rightarrow> string option)
    \<Rightarrow> string + symbolInformation list option \<Rightarrow> string \<Rightarrow> searchOptions
    \<Rightarrow> string + searchResult" where
  "workspaceSymbolSearch uriToPath symbolKindNames requestResult projectRoot options =
     (let query = opt_query options;
          limit = limitOf options;
          includeExternal = includeExternalOf options;
          excludePaths = excludePathsOf options
      in case requestResult of
           Inl msg \<Rightarrow> Inl msg
         | Inr result \<Rightarrow>
             (let symbols = (case result of None \<Rightarrow> [] | Some xs \<Rightarrow> xs);
                  filtered = filteredSymbols uriToPath projectRoot includeExternal excludePaths symbols
              in if filtered = [] then
                   Inr (NotFound (notFoundMessage query projectRoot includeExternal excludePaths))
                 else
                   (let limitedSymbols = sliceTo filtered limit;
                        formattedSymbols =
                          map (formatSymbol uriToPath symbolKindNames) limitedSymbols
                    in Inr (Found
                         \<lparr>r_count = length filtered,
                          r_returned = length formattedSymbols,
                          r_truncated = (int (length filtered) > limit),
                          r_projectRoot = projectRoot,
                          r_includeExternal = includeExternal,
                          r_excludePaths = (if excludePaths \<noteq> [] then Some excludePaths else None),
                          r_symbols = formattedSymbols\<rparr>))))"

text \<open>The symbols of an answer: those of a \<open>Found\<close> payload, none otherwise.\<close>

fun returnedSymbols :: "string + searchResult \<Rightarrow> formattedSymbol list" where
  "returnedSymbols (Inr (Found payload)) = r_symbols payload"
| "returnedSymbols answer = []"

section \<open>file-tracker.ts: the open-document tracker\<close>

subsection \<open>The tracker and what it talks to\<close>

text \<open>What \<open>lspClient.notify\<close> sends; a \<open>didOpen\<close> carries the URI, the language id and
  the text (its version is always 1).\<close>

datatype notification =
    DidOpen string string string
  | DidClose string

text \<open>
  Everything outside the tracker that its methods touch: the notifications sent so far,
  in order, and the global \<open>diagnosticsCache\<close> of index.ts (\<open>None\<close> while it is
  \<open>null\<close>), which maps a URI to its diagnostics.
\<close>

record world =
  sent :: "notification list"
  diagnosticsCache :: "(string \<rightharpoonup> string list) option"

text \<open>
  The fields of \<open>FileTracker\<close>. \<open>openFiles\<close> is a \<open>Map\<close> from URI to last access time: a
  list of entries in insertion order, where \<open>set\<close> on a present key keeps its place
  (\<^const>\<open>AList.update\<close>) and \<open>delete\<close> removes the entry (\<^const>\<open>AList.delete\<close>).
\<close>

record fileTracker =
  openFiles :: "(string \<times> int) list"
  inFlightOpens :: "string set"
  maxOpenFiles :: nat
  onFileClosedCallback :: "(string \<Rightarrow> world \<Rightarrow> world) option"

text \<open>The constructor, and \<open>onFileClosed\<close>.\<close>

definition newFileTracker :: fileTracker where
  "newFileTracker = \<lparr>openFiles = [], inFlightOpens = {}, maxOpenFiles = 100,
     onFileClosedCallback = None\<rparr>"

definition onFileClosed :: "(string \<Rightarrow> world \<Rightarrow> world) \<Rightarrow> fileTracker \<Rightarrow> fileTracker" where
  "onFileClosed callback tr = tr\<lparr>onFileClosedCallback := Some callback\<rparr>"

definition notify :: "notification \<Rightarrow> world \<Rightarrow> world" where
  "notify n w = w\<lparr>sent := sent w @ [n]\<rparr>"

text \<open>\<open>if (this.onFileClosedCallback) this.onFileClosedCallback(uri)\<close>\<close>

definition runCallback :: "fileTracker \<Rightarrow> string \<Rightarrow> world \<Rightarrow> world" where
  "runCallback tr uri w = (case onFileClosedCallback tr of None \<Rightarrow> w | Some callback \<Rightarrow> callback uri w)"

definition hasOpen :: "fileTracker \<Rightarrow> string \<Rightarrow> bool" where
  "hasOpen tr uri \<longleftrightarrow> map_of (openFiles tr) uri \<noteq> None"

text \<open>\<open>this.openFiles.set(uri, Date.now())\<close>, with the clock's value as \<open>now\<close>.\<close>

definition touch :: "string \<Rightarrow> int \<Rightarrow> fileTracker \<Rightarrow> fileTracker" where
  "touch uri now tr = tr\<lparr>openFiles := AList.update uri now (openFiles tr)\<rparr>"

subsection \<open>evictLRU\<close>

text \<open>
  The loop over \<open>openFiles.entries()\<close>, with \<open>(oldestUri, oldestTime)\<close> as its state;
  \<open>None\<close> is \<open>null\<close> for the URI and \<open>Infinity\<close> for the time.
\<close>

fun oldestEntry ::
  "(string \<times> int) list \<Rightarrow> string option \<times> int option \<Rightarrow> string option \<times> int option" where
  "oldestEntry [] acc = acc"
| "oldestEntry ((uri, time) # rest) (oldestUri, oldestTime) =
     (if (case oldestTime of None \<Rightarrow> True | Some t \<Rightarrow> time < t)
      then oldestEntry rest (Some uri, Some time)
      else oldestEntry rest (oldestUri, oldestTime))"

text \<open>\<open>if (oldestUri)\<close> is false for \<open>null\<close> and for the empty string.\<close>

definition evictLRU :: "fileTracker \<times> world \<Rightarrow> fileTracker \<times> world" where
  "evictLRU st =
     (case st of (tr, w) \<Rightarrow>
        (case fst (oldestEntry (openFiles tr) (None, None)) of
           None \<Rightarrow> (tr, w)
         | Some oldestUri \<Rightarrow>
             if oldestUri = [] then (tr, w)
             else
               (let w1 = notify (DidClose oldestUri) w;
                    tr1 = tr\<lparr>openFiles := AList.delete oldestUri (openFiles tr)\<rparr>
                in (tr1, runCallback tr1 oldestUri w1))))"

subsection \<open>closeFile and closeAll\<close>

text \<open>\<open>normalizeToUri\<close> and \<open>uriToPath\<close> (utils/uri.ts) are parameters.\<close>

definition closeFile ::
  "(string \<Rightarrow> string) \<Rightarrow> string \<Rightarrow> fileTracker \<times> world \<Rightarrow> fileTracker \<times> world" where
  "closeFile normalizeToUri filePath st =
     (case st of (tr, w) \<Rightarrow>
        (let uri = normalizeToUri filePath in
         if \<not> hasOpen tr uri then (tr, w)
         else
           (let w1 = notify (DidClose uri) w;
                tr1 = tr\<lparr>openFiles := AList.delete uri (openFiles tr)\<rparr>
            in (tr1, runCallback tr1 uri w1))))"

text \<open>The loop over \<open>openFiles.keys()\<close>, then \<open>openFiles.clear()\<close>.\<close>

definition closeAll :: "fileTracker \<times> world \<Rightarrow> fileTracker \<times> world" where
  "closeAll st =
     (case st of (tr, w) \<Rightarrow>
        (tr\<lparr>openFiles := []\<rparr>,
         foldl (\<lambda>w uri. runCallback tr uri (notify (DidClose uri) w)) w (map fst (openFiles tr))))"

subsection \<open>getLanguageId\<close>

text \<open>\<open>filePath.split('.').pop()?.toLowerCase()\<close>: what follows the last dot, or the whole
  path when it has none, in lower case.\<close>

definition extensionOf :: "string \<Rightarrow> string" where
  "extensionOf filePath = map lowerAscii (rev (takeWhile (\<lambda>c. c \<noteq> CHR ''.'') (rev filePath)))"

definition getLanguageId :: "string \<Rightarrow> string" where
  "getLanguageId filePath =
     (let ext = extensionOf filePath in
      if ext = ''c'' then ''c''
      else if ext \<in> set [''cc'', ''cpp'', ''cxx'', ''c++''] then ''cpp''
      else if ext \<in> set [''h'', ''hh'', ''hpp'', ''hxx'', ''h++''] then ''cpp''
      else if ext = ''m'' then ''objective-c''
      else if ext = ''mm'' then ''objective-cpp''
      else ''cpp'')"

subsection \<open>ensureFileOpen, one step at a time\<close>

text \<open>
  \<open>ensureFileOpen\<close> is asynchronous: it runs until it awaits something, and other calls
  run before it goes on. Where one call stands:
  \<^item> \<open>Called filePath\<close>: the call has been made and has not run yet;
  \<^item> \<open>Waiting uri\<close>: it is in the loop that waits 10 ms while the URI is in flight;
  \<^item> \<open>Reading uri\<close>: it has marked the URI as in flight and awaits \<open>readFile\<close> in
    \<open>openFile\<close>;
  \<^item> \<open>Opened uri\<close>, \<open>OpenFailed uri\<close>: \<open>openFile\<close> has resolved or rejected, and the
    \<open>finally\<close> block has not run yet;
  \<^item> \<open>Returned uri\<close>, \<open>Rejected uri\<close>: the call has resolved to the URI or rejected.
\<close>

datatype call =
    Called string
  | Waiting string
  | Reading string
  | Opened string
  | OpenFailed string
  | Returned string
  | Rejected string

text \<open>From \<open>this.inFlightOpens.add(uri)\<close> to the \<open>await\<close> of \<open>readFile\<close>.\<close>

definition beginOpen :: "string \<Rightarrow> fileTracker \<times> world \<Rightarrow> fileTracker \<times> world" where
  "beginOpen uri st =
     (case st of (tr, w) \<Rightarrow>
        (let tr1 = tr\<lparr>inFlightOpens := insert uri (inFlightOpens tr)\<rparr> in
         if length (openFiles tr1) \<ge> maxOpenFiles tr1 then evictLRU (tr1, w) else (tr1, w)))"

text \<open>
  One step of one call: from where it stands to its next \<open>await\<close> or its end. \<open>now\<close>
  is what \<open>Date.now()\<close> returns during the step; \<open>content\<close> is how \<open>readFile\<close> ended for
  a call that was reading (\<open>None\<close>: it failed).
\<close>

definition stepCall ::
  "(string \<Rightarrow> string) \<Rightarrow> (string \<Rightarrow> string) \<Rightarrow> int \<Rightarrow> string option \<Rightarrow> call
    \<Rightarrow> fileTracker \<times> world \<Rightarrow> call \<times> fileTracker \<times> world" where
  "stepCall normalizeToUri uriToPath now content c st =
     (case st of (tr, w) \<Rightarrow>
        (case c of
           Called filePath \<Rightarrow>
             (let uri = normalizeToUri filePath in
              if hasOpen tr uri then (Returned uri, touch uri now tr, w)
              else if uri \<in> inFlightOpens tr then (Waiting uri, tr, w)
              else (Reading uri, beginOpen uri (tr, w)))
         | Waiting uri \<Rightarrow>
             if uri \<in> inFlightOpens tr then (Waiting uri, tr, w)
             else if hasOpen tr uri then (Returned uri, touch uri now tr, w)
             else (Reading uri, beginOpen uri (tr, w))
         | Reading uri \<Rightarrow>
             (case content of
                Some fileText \<Rightarrow>
                  (Opened uri, touch uri now tr,
                   notify (DidOpen uri (getLanguageId (uriToPath uri)) fileText) w)
              | None \<Rightarrow> (OpenFailed uri, tr, w))
         | Opened uri \<Rightarrow> (Returned uri, tr\<lparr>inFlightOpens := inFlightOpens tr - {uri}\<rparr>, w)
         | OpenFailed uri \<Rightarrow> (Rejected uri, tr\<lparr>inFlightOpens := inFlightOpens tr - {uri}\<rparr>, w)
         | Returned uri \<Rightarrow> (c, tr, w)
         | Rejected uri \<Rightarrow> (c, tr, w)))"

text \<open>
  Several calls side by side. A schedule is a list of ticks \<open>(i, now, content)\<close>: call
  \<open>i\<close> takes its next step, at clock value \<open>now\<close>, with \<open>content\<close> as the result of its
  \<open>readFile\<close> if that is what it awaits.
\<close>

definition advance ::
  "(string \<Rightarrow> string) \<Rightarrow> (string \<Rightarrow> string) \<Rightarrow> nat \<times> int \<times> string option
    \<Rightarrow> call list \<times> fileTracker \<times> world \<Rightarrow> call list \<times> fileTracker \<times> world" where
  "advance normalizeToUri uriToPath tick sys =
     (case (tick, sys) of ((i, now, content), (cs, st)) \<Rightarrow>
        if i < length cs then
          (case stepCall normalizeToUri uriToPath now content (cs ! i) st of
             (c', st') \<Rightarrow> (cs[i := c'], st'))
        else (cs, st))"

definition run ::
  "(string \<Rightarrow> string) \<Rightarrow> (string \<Rightarrow> string) \<Rightarrow> (nat \<times> int \<times> string option) list
    \<Rightarrow> call list \<times> fileTracker \<times> world \<Rightarrow> call list \<times> fileTracker \<times> world" where
  "run normalizeToUri uriToPath ticks sys =
     foldl (\<lambda>s tick. advance normalizeToUri uriToPath tick s) sys ticks"

text \<open>How many \<open>didOpen\<close> notifications for a URI a list of notifications holds.\<close>

definition didOpenCount :: "string \<Rightarrow> notification list \<Rightarrow> nat" where
  "didOpenCount uri ns =
     length (filter (\<lambda>n. case n of DidOpen u languageId fileText \<Rightarrow> u = uri | DidClose u \<Rightarrow> False) ns)"

subsection \<open>The hook of index.ts\<close>

text \<open>
  Modelled from the spec: \<open>DiagnosticsCache.clearForFile\<close> (tools/get-diagnostics.ts is not
  among the sources) "removes the entry unconditionally".
\<close>

definition clearForFile :: "string \<Rightarrow> (string \<rightharpoonup> string list) \<Rightarrow> (string \<rightharpoonup> string list)" where
  "clearForFile uri cache = cache(uri := None)"

text \<open>The callback that \<open>ensureClangdInitialized\<close> registers with \<open>onFileClosed\<close>.\<close>

definition diagnosticsHook :: "string \<Rightarrow> world \<Rightarrow> world" where
  "diagnosticsHook uri w =
     (case diagnosticsCache w of
        None \<Rightarrow> w
      | Some cache \<Rightarrow> w\<lparr>diagnosticsCache := Some (clearForFile uri cache)\<rparr>)"

text \<open>The URIs that have a diagnostics entry.\<close>

definition cachedUris :: "world \<Rightarrow> string set" where
  "cachedUris w = (case diagnosticsCache w of None \<Rightarrow> {} | Some cache \<Rightarrow> dom cache)"

subsection \<open>Calls that do not overlap, and a tracker at its maximum\<close>

text \<open>
  A call of \<open>ensureFileOpen\<close> that runs from start to end with no other call in between:
  its first step, the end of \<open>readFile\<close>, the \<open>finally\<close> block. (Steps of a call that
  has already ended change nothing.)
\<close>

definition ensureFileOpenAlone ::
  "(string \<Rightarrow> string) \<Rightarrow> (string \<Rightarrow> string) \<Rightarrow> int \<Rightarrow> string option \<Rightarrow> string
    \<Rightarrow> fileTracker \<times> world \<Rightarrow> call \<times> fileTracker \<times> world" where
  "ensureFileOpenAlone normalizeToUri uriToPath now content filePath st =
     (case stepCall normalizeToUri uriToPath now None (Called filePath) st of
        (c1, st1) \<Rightarrow>
          (case stepCall normalizeToUri uriToPath now content c1 st1 of
             (c2, st2) \<Rightarrow> stepCall normalizeToUri uriToPath now None c2 st2))"

text \<open>What holds of the tracker between calls that do not overlap.\<close>

definition settled :: "fileTracker \<times> world \<Rightarrow> bool" where
  "settled st \<longleftrightarrow>
     (case st of (tr, w) \<Rightarrow>
        length (openFiles tr) \<le> maxOpenFiles tr \<and> 0 < maxOpenFiles tr
        \<and> inFlightOpens tr = {}
        \<and> distinct (map fst (openFiles tr))
        \<and> [] \<notin> fst ` set (openFiles tr))"

text \<open>
  The tracker after a hundred files \<open>/src/f0.cpp\<close> to \<open>/src/f99.cpp\<close> have been opened one
  after the other, at times 0 to 99.
\<close>

definition atCapacity :: fileTracker where
  "atCapacity =
     newFileTracker\<lparr>openFiles :=
       map (\<lambda>i. (''file:///src/f'' @ numberToString (int i) @ ''.cpp'', int i)) [0..<100]\<rparr>"

subsection \<open>Concurrent calls\<close>

text \<open>
  A call holds the mark of a URI from \<open>this.inFlightOpens.add(uri)\<close> to its \<open>finally\<close>
  block.
\<close>

definition holdsMark :: "string \<Rightarrow> call \<Rightarrow> bool" where
  "holdsMark uri c \<longleftrightarrow> c = Reading uri \<or> c = Opened uri \<or> c = OpenFailed uri"

text \<open>A call that has resolved or rejected.\<close>

fun ended :: "call \<Rightarrow> bool" where
  "ended (Returned uri) = True"
| "ended (Rejected uri) = True"
| "ended c = False"

text \<open>The URI that a call is about.\<close>

fun uriOf :: "(string \<Rightarrow> string) \<Rightarrow> call \<Rightarrow> string" where
  "uriOf normalizeToUri (Called filePath) = normalizeToUri filePath"
| "uriOf normalizeToUri (Waiting uri) = uri"
| "uriOf normalizeToUri (Reading uri) = uri"
| "uriOf normalizeToUri (Opened uri) = uri"
| "uriOf normalizeToUri (OpenFailed uri) = uri"
| "uriOf normalizeToUri (Returned uri) = uri"
| "uriOf normalizeToUri (Rejected uri) = uri"

text \<open>
  A round of \<open>n\<close> calls: every call takes one step, in the order of the calls. Between two
  polls of a waiting call, which are 10 ms apart, every other call gets its turn.
\<close>

definition roundOf :: "nat \<Rightarrow> (nat \<times> int \<times> string option) list \<Rightarrow> bool" where
  "roundOf n ticks \<longleftrightarrow> map fst ticks = [0..<n]"

text \<open>How many steps a call has before it, at most, once it is its turn and nothing holds it up.\<close>

fun stepsLeft :: "call \<Rightarrow> nat" where
  "stepsLeft (Called filePath) = 4"
| "stepsLeft (Waiting uri) = 3"
| "stepsLeft (Reading uri) = 2"
| "stepsLeft (Opened uri) = 1"
| "stepsLeft (OpenFailed uri) = 1"
| "stepsLeft (Returned uri) = 0"
| "stepsLeft (Rejected uri) = 0"

text \<open>
  What holds of the marks while calls run: a URI is in flight exactly while one call holds
  its mark, and no second call holds it.
\<close>

definition marksHeld :: "call list \<times> fileTracker \<times> world \<Rightarrow> bool" where
  "marksHeld sys \<longleftrightarrow>
     (case sys of (cs, tr, w) \<Rightarrow>
        \<forall>uri. length (filter (holdsMark uri) cs) = (if uri \<in> inFlightOpens tr then 1 else 0))"

text \<open>
  What holds of the notifications for one URI while calls run, \<open>opens\<close> and \<open>closes\<close> being
  the numbers of \<open>didOpen\<close> and \<open>didClose\<close> notifications for it sent before they
  started: as long as no further \<open>didClose\<close> has been sent for the URI (it has not been
  evicted), one \<open>didOpen\<close> has been sent exactly when the URI is in the map; a call that
  reads has not opened the URI yet; a call that has opened or returned it finds it in the
  map.
\<close>

definition opensOnce :: "string \<Rightarrow> nat \<Rightarrow> nat \<Rightarrow> call list \<times> fileTracker \<times> world \<Rightarrow> bool" where
  "opensOnce uri opens closes sys \<longleftrightarrow>
     (case sys of (cs, tr, w) \<Rightarrow>
        onFileClosedCallback tr = Some diagnosticsHook
        \<and> closes \<le> count_list (sent w) (DidClose uri)
        \<and> (count_list (sent w) (DidClose uri) = closes \<longrightarrow>
             didOpenCount uri (sent w) = opens + (if hasOpen tr uri then 1 else 0)
             \<and> (Reading uri \<in> set cs \<longrightarrow> \<not> hasOpen tr uri)
             \<and> (Opened uri \<in> set cs \<longrightarrow> hasOpen tr uri)
             \<and> (Returned uri \<in> set cs \<longrightarrow> hasOpen tr uri)))"

text \<open>
  What holds of the calls made for the paths \<open>paths\<close>, while every read for the URI
  \<open>uri\<close> succeeds: each call stays with the URI of its path, and no call for \<open>uri\<close>
  fails.
\<close>

definition onTrack ::
  "(string \<Rightarrow> string) \<Rightarrow> string list \<Rightarrow> string \<Rightarrow> call list \<Rightarrow> bool" where
  "onTrack normalizeToUri paths uri cs \<longleftrightarrow>
     length cs = length paths
     \<and> (\<forall>i < length paths.
          uriOf normalizeToUri (cs ! i) = normalizeToUri (paths ! i)
          \<and> cs ! i \<noteq> OpenFailed uri \<and> cs ! i \<noteq> Rejected uri)"

section \<open>index.ts: lazy initialization\<close>

text \<open>
  The globals that \<open>ensureClangdInitialized\<close> reads and writes. \<open>clangdManager\<close> is
  \<open>None\<close> while it is \<open>null\<close>, and otherwise holds what the manager's \<open>isReady()\<close>
  returns. \<open>initializationPromise\<close> is \<open>None\<close> while it is \<open>null\<close>, and otherwise
  holds the promise: one that is pending, with the place where its body stands (at
  \<open>await clangdManager.start()\<close> or, after that, at \<open>await openSourceFiles(...)\<close>), or
  one that has already rejected. \<open>started\<close> counts the managers that
  \<open>ensureClangdInitialized\<close> has constructed and started; \<open>ClangdManager\<close> itself is not
  among the sources, and each \<open>start()\<close> is one subprocess spawned.
\<close>

datatype initStage = AwaitingStart | AwaitingOpenSourceFiles

datatype promise = PendingAt initStage | AlreadyRejected

record server =
  isShuttingDown :: bool
  clangdManager :: "bool option"
  initializationPromise :: "promise option"
  started :: nat

definition idleServer :: server where
  "idleServer = \<lparr>isShuttingDown = False, clangdManager = None, initializationPromise = None,
     started = 0\<rparr>"

text \<open>\<open>clangdManager && clangdManager.isReady()\<close>\<close>

definition managerReady :: "server \<Rightarrow> bool" where
  "managerReady s = (case clangdManager s of None \<Rightarrow> False | Some ready \<Rightarrow> ready)"

text \<open>
  How a call ends for its caller: it throws, it returns at once on the fast path, it
  returns a pending promise, which the caller awaits, or it returns a promise that has
  rejected.
\<close>

datatype initAnswer = Throws | ReturnsReady | AwaitsInitialization | ReturnsRejection

text \<open>
  Creating the promise runs its body up to the first \<open>await\<close>, and what happens there is
  not decided by the code of this function: \<open>detectConfiguration()\<close> (which calls
  \<open>process.cwd()\<close>) or the constructor of \<open>ClangdManager\<close> may throw, or both return
  and \<open>start()\<close> is called, whose promise the body awaits.
\<close>

datatype bodyStart = ThrowsBeforeStart | ReachesStart

text \<open>
  The call up to its return, \<open>body\<close> being what the body does if this call creates the
  promise. When the body throws before its first \<open>await\<close>, its \<open>finally\<close> block sets
  \<open>initializationPromise\<close> to \<open>null\<close> first, and the assignment of the promise, which has
  rejected by then, comes after it: the variable keeps the rejected promise, and no manager
  has been started. When the body reaches \<open>start()\<close>, the variable holds the pending
  promise until the \<open>finally\<close> block runs.
\<close>

definition ensureClangdInitialized :: "bodyStart \<Rightarrow> server \<Rightarrow> initAnswer \<times> server" where
  "ensureClangdInitialized body s =
     (if isShuttingDown s then (Throws, s)
      else if managerReady s then (ReturnsReady, s)
      else
        (case initializationPromise s of
           Some (PendingAt stage) \<Rightarrow> (AwaitsInitialization, s)
         | Some AlreadyRejected \<Rightarrow> (ReturnsRejection, s)
         | None \<Rightarrow>
             (case body of
                ThrowsBeforeStart \<Rightarrow>
                  (ReturnsRejection, s\<lparr>initializationPromise := Some AlreadyRejected\<rparr>)
              | ReachesStart \<Rightarrow>
                  (AwaitsInitialization,
                   s\<lparr>clangdManager := Some False, started := Suc (started s),
                     initializationPromise := Some (PendingAt AwaitingStart)\<rparr>))))"

text \<open>
  What happens to the server over time: a call of \<open>ensureClangdInitialized\<close>; the pending
  \<open>start()\<close> resolves (the manager is ready, and the body goes on to \<open>await
  openSourceFiles(...)\<close>, unless one of the constructors on the way throws and the
  \<open>finally\<close> block clears the promise) or rejects (the \<open>finally\<close> block clears the
  promise); the rest of the body ends (the \<open>finally\<close> block clears the promise); the
  subprocess crashes (the manager is no longer ready); a termination signal arrives.
\<close>

datatype afterStart = ReachesOpenSourceFiles | ThrowsAfterStart

datatype serverEvent =
    Call bodyStart
  | StartResolved afterStart
  | StartRejected
  | OpenSourceFilesSettled
  | Crashed
  | ShutdownSignal

fun serverStep :: "server \<Rightarrow> serverEvent \<Rightarrow> server" where
  "serverStep s (Call body) = snd (ensureClangdInitialized body s)"
| "serverStep s (StartResolved rest) =
     (if initializationPromise s = Some (PendingAt AwaitingStart) then
        (case rest of
           ReachesOpenSourceFiles \<Rightarrow>
             s\<lparr>clangdManager := Some True,
               initializationPromise := Some (PendingAt AwaitingOpenSourceFiles)\<rparr>
         | ThrowsAfterStart \<Rightarrow> s\<lparr>clangdManager := Some True, initializationPromise := None\<rparr>)
      else s)"
| "serverStep s StartRejected =
     (if initializationPromise s = Some (PendingAt AwaitingStart) then
        s\<lparr>initializationPromise := None\<rparr>
      else s)"
| "serverStep s OpenSourceFilesSettled =
     (if initializationPromise s = Some (PendingAt AwaitingOpenSourceFiles) then
        s\<lparr>initializationPromise := None\<rparr>
      else s)"
| "serverStep s Crashed =
     (case clangdManager s of None \<Rightarrow> s | Some ready \<Rightarrow> s\<lparr>clangdManager := Some False\<rparr>)"
| "serverStep s ShutdownSignal = s\<lparr>isShuttingDown := True\<rparr>"

definition serverRun :: "serverEvent list \<Rightarrow> server \<Rightarrow> server" where
  "serverRun events s = foldl serverStep s events"

text \<open>An event that ends the pending initialization.\<close>

definition settles :: "serverEvent \<Rightarrow> bool" where
  "settles e \<longleftrightarrow>
     e = StartRejected \<or> e = OpenSourceFilesSettled \<or> e = StartResolved ThrowsAfterStart"

text \<open>What the body does in the first call of a sequence of events, if there is a call.\<close>

fun firstCall :: "serverEvent list \<Rightarrow> bodyStart option" where
  "firstCall [] = None"
| "firstCall (Call body # events) = Some body"
| "firstCall (e # events) = firstCall events"

section \<open>index.ts: the compile_commands.json watcher\<close>

text \<open>
  The callback that \<open>startCompileCommandsWatcher\<close> gives to \<open>watch\<close>, with the timers
  of the runtime written out. \<open>timers\<close> are the pending timeouts, each an id with the
  clock value (in ms) at which it is due; \<open>nextTimer\<close> is the id the next \<open>setTimeout\<close>
  returns; \<open>debounceTimer\<close> is the variable of the closure (\<open>None\<close>: \<open>null\<close>);
  \<open>shuttingDown\<close> is the global \<open>isShuttingDown\<close>; \<open>reindexed\<close> lists the clock values
  at which the timer's callback ran, that is, at which re-indexing started.
\<close>

record watcher =
  clock :: nat
  timers :: "(nat \<times> nat) list"
  nextTimer :: nat
  debounceTimer :: "nat option"
  shuttingDown :: bool
  reindexed :: "nat list"

definition newWatcher :: watcher where
  "newWatcher = \<lparr>clock = 0, timers = [], nextTimer = 0, debounceTimer = None,
     shuttingDown = False, reindexed = []\<rparr>"

definition clearTimeout :: "nat \<Rightarrow> watcher \<Rightarrow> watcher" where
  "clearTimeout timer s = s\<lparr>timers := filter (\<lambda>(t, due). t \<noteq> timer) (timers s)\<rparr>"

text \<open>\<open>debounceTimer = setTimeout(..., delay)\<close>\<close>

definition setDebounceTimer :: "nat \<Rightarrow> watcher \<Rightarrow> watcher" where
  "setDebounceTimer delay s =
     s\<lparr>timers := timers s @ [(nextTimer s, clock s + delay)],
       debounceTimer := Some (nextTimer s),
       nextTimer := Suc (nextTimer s)\<rparr>"

text \<open>The callback of \<open>watch\<close>, run for one change event.\<close>

definition onChange :: "watcher \<Rightarrow> watcher" where
  "onChange s =
     (if shuttingDown s then s
      else
        (let s1 = (case debounceTimer s of None \<Rightarrow> s | Some timer \<Rightarrow> clearTimeout timer s)
         in setDebounceTimer 1000 s1))"

text \<open>
  Time passes: the clock moves on by \<open>delay\<close> ms, and every pending timer that is due by
  then runs its callback (which starts re-indexing) and is gone.
\<close>

definition elapse :: "nat \<Rightarrow> watcher \<Rightarrow> watcher" where
  "elapse delay s =
     (let now = clock s + delay in
      s\<lparr>clock := now,
        reindexed := reindexed s @ map snd (filter (\<lambda>(t, due). due \<le> now) (timers s)),
        timers := filter (\<lambda>(t, due). \<not> due \<le> now) (timers s)\<rparr>)"

datatype watchEvent = Change | Wait nat | Shutdown

fun watchStep :: "watcher \<Rightarrow> watchEvent \<Rightarrow> watcher" where
  "watchStep s Change = onChange s"
| "watchStep s (Wait delay) = elapse delay s"
| "watchStep s Shutdown = s\<lparr>shuttingDown := True\<rparr>"

definition watchRun :: "watchEvent list \<Rightarrow> watcher \<Rightarrow> watcher" where
  "watchRun events s = foldl watchStep s events"

text \<open>A burst: a change event, and after each of the given gaps another one.\<close>

definition burst :: "nat list \<Rightarrow> watchEvent list" where
  "burst gaps = Change # concat (map (\<lambda>gap. [Wait gap, Change]) gaps)"

text \<open>At most one timer is pending, and it is the one \<open>debounceTimer\<close> names.\<close>

definition singleDeadline :: "watcher \<Rightarrow> bool" where
  "singleDeadline s \<longleftrightarrow>
     timers s = [] \<or> (\<exists>timer due. timers s = [(timer, due)] \<and> debounceTimer s = Some timer)"

section \<open>Properties of the tool-call handler\<close>

lemma validatePositionArgs_invalid:
  "invalidPosition (getProp args ''line'') \<or> invalidPosition (getProp args ''column'')
   \<Longrightarrow> \<exists>msg. validatePositionArgs args = Inl msg"
  by (auto simp: validatePositionArgs_def)

lemma validateToolArgs_non_object:
  "typeof args \<noteq> ''object'' \<Longrightarrow>
   validateToolArgs name args = Inl ''Invalid arguments: must be an object''"
  by (simp add: validateToolArgs_def)

lemma validateToolArgs_position:
  assumes "name \<in> set positionTools"
    and "invalidPosition (getProp args ''line'') \<or> invalidPosition (getProp args ''column'')"
  shows "\<exists>msg. validateToolArgs name args = Inl msg"
proof -
  obtain m where m: "validatePositionArgs args = Inl m"
    using validatePositionArgs_invalid [OF assms(2)] by blast
  from assms(1) have "name = ''find_definition'' \<or> name = ''find_references'' \<or> name = ''get_hover''
     \<or> name = ''find_implementations'' \<or> name = ''get_call_hierarchy'' \<or> name = ''get_type_hierarchy''"
    by (simp add: positionTools_def)
  then show ?thesis
    by (elim disjE) (simp_all add: validateToolArgs_def m)
qed

lemma validateToolArgs_limit:
  assumes "getProp args ''limit'' = JInt l" and "l \<le> 0"
  shows "\<exists>msg. validateToolArgs ''workspace_symbol_search'' args = Inl msg"
  using assms by (simp add: validateToolArgs_def)

text \<open>
  Claim C5. When \<open>validateToolArgs\<close> rejects the arguments of a tool call, the handler
  answers with the error response and has done nothing else: \<open>ensureClangdInitialized\<close>
  was not awaited and no tool function was called, so nothing was sent to the subprocess and
  nothing was tried a second time. The message is the validation message (for arguments that
  are falsy the handler's own check comes first, with its own message). Arguments that are
  not an object, a line or column that is not a non-negative integer, and a limit that is
  zero or negative are all rejected.
\<close>

theorem validation_failure_precedes_initialization:
  "(validateToolArgs (req_name request) (req_arguments request) = Inl msg \<longrightarrow>
      toolCallHandler stringify co request =
        (\<lparr>content_text = stringify (errorBody
             (if truthy (req_arguments request) then msg else ''Missing arguments for tool call'')),
           isError = True\<rparr>, []))
   \<and> (typeof args \<noteq> ''object'' \<longrightarrow> (\<exists>m. validateToolArgs name args = Inl m))
   \<and> (name \<in> set positionTools
        \<and> (invalidPosition (getProp args ''line'') \<or> invalidPosition (getProp args ''column''))
        \<longrightarrow> (\<exists>m. validateToolArgs name args = Inl m))
   \<and> (getProp args ''limit'' = JInt l \<and> l \<le> 0 \<longrightarrow>
        (\<exists>m. validateToolArgs ''workspace_symbol_search'' args = Inl m))"
proof -
  have "toolCallHandler stringify co request =
        (\<lparr>content_text = stringify (errorBody
             (if truthy (req_arguments request) then msg else ''Missing arguments for tool call'')),
           isError = True\<rparr>, [])"
    if "validateToolArgs (req_name request) (req_arguments request) = Inl msg"
    using that by (simp add: toolCallHandler_def toolCallBody_def)
  then show ?thesis
    using validateToolArgs_non_object validateToolArgs_position validateToolArgs_limit
    by blast
qed

theorem validation_failure_precedes_initialization_witness:
  "validateToolArgs ''find_definition''
      (JObj [(''file_path'', JStr ''/src/a.cpp''), (''line'', JInt (- 1)), (''column'', JInt 0)])
     = Inl ''Invalid line: must be a non-negative integer''
   \<and> toolCallHandler (\<lambda>v. ''{}'')
        \<lparr>initOutcome = None, managerSet = True, trackerSet = True, cacheSet = True,
          runTool = (\<lambda>n a. Inr ''ok'')\<rparr>
        \<lparr>req_name = ''find_definition'',
          req_arguments =
            JObj [(''file_path'', JStr ''/src/a.cpp''), (''line'', JInt (- 1)), (''column'', JInt 0)]\<rparr>
     = (\<lparr>content_text = ''{}'', isError = True\<rparr>, [])
   \<and> typeof (JInt 5) \<noteq> ''object''
   \<and> (\<exists>m. validateToolArgs ''get_hover'' (JInt 5) = Inl m)
   \<and> (\<exists>m. validateToolArgs ''workspace_symbol_search''
             (JObj [(''query'', JStr ''Foo''), (''limit'', JInt 0)]) = Inl m)"
  using validation_failure_precedes_initialization
    [where request = "\<lparr>req_name = ''find_definition'',
          req_arguments =
            JObj [(''file_path'', JStr ''/src/a.cpp''), (''line'', JInt (- 1)), (''column'', JInt 0)]\<rparr>"
       and msg = "''Invalid line: must be a non-negative integer''"
       and stringify = "\<lambda>v. ''{}''"
       and co = "\<lparr>initOutcome = None, managerSet = True, trackerSet = True, cacheSet = True,
          runTool = (\<lambda>n a. Inr ''ok'')\<rparr>"
       and args = "JInt 5" and name = "''get_hover''" and l = 0]
  by (simp add: validateToolArgs_def validatePositionArgs_def invalidPosition_def)

lemma toolCallBody_success:
  "fst (toolCallBody co request) = Inr text \<Longrightarrow>
   runTool co (req_name request) (req_arguments request) = Inr text
   \<and> snd (toolCallBody co request) = [EnsureInitialized, ToolCalled (req_name request)]"
  by (auto simp: toolCallBody_def Let_def split: if_splits sum.splits option.splits)

lemma toolCallHandler_cases:
  "(\<exists>text. fst (toolCallBody co request) = Inr text
       \<and> fst (toolCallHandler stringify co request) = \<lparr>content_text = text, isError = False\<rparr>)
   \<or> (\<exists>message. fst (toolCallBody co request) = Inl message
       \<and> fst (toolCallHandler stringify co request)
           = \<lparr>content_text = stringify (errorBody message), isError = True\<rparr>)"
  by (cases "toolCallBody co request"; cases "fst (toolCallBody co request)")
     (auto simp: toolCallHandler_def)

lemma toolCallBody_succeeds_iff:
  "(\<exists>text. fst (toolCallBody co request) = Inr text) \<longleftrightarrow> callSucceeds co request"
  by (auto simp: toolCallBody_def callSucceeds_def Let_def
      split: if_splits sum.splits option.splits)

lemma isError_iff:
  "isError (fst (toolCallHandler stringify co request)) \<longleftrightarrow> \<not> callSucceeds co request"
  using toolCallHandler_cases [of co request stringify] toolCallBody_succeeds_iff [of co request]
  by auto

lemma errorBody_text:
  "JSON_stringify (JObj [(''error'', JBool True), (''message'', JStr message)])
     = ''{'' @ [doubleQuote] @ ''error'' @ [doubleQuote] @ '':true,'' @ [doubleQuote] @ ''message''
       @ [doubleQuote] @ '':'' @ quoteJSONString message @ ''}''"
proof -
  have "quoteJSONString ''error'' = [doubleQuote] @ ''error'' @ [doubleQuote]"
    "quoteJSONString ''message'' = [doubleQuote] @ ''message'' @ [doubleQuote]"
    by code_simp+
  then show ?thesis
    by (simp add: JSON_stringify_def)
qed

lemma hostRun_tool_calls:
  "host_phase h = Running \<Longrightarrow>
   hostRun stringify (map (\<lambda>(co, request). ToolCall co request) calls) h
     = h\<lparr>host_responses := host_responses h
          @ map (\<lambda>(co, request). fst (toolCallHandler stringify co request)) calls\<rparr>"
proof (induction calls arbitrary: h)
  case Nil
  then show ?case by (simp add: hostRun_def)
next
  case (Cons call calls)
  obtain co request where call: "call = (co, request)"
    by (cases call)
  let ?h = "h\<lparr>host_responses := host_responses h @ [fst (toolCallHandler stringify co request)]\<rparr>"
  from Cons.prems have step: "hostStep stringify h (ToolCall co request) = ?h"
    by simp
  have "host_phase ?h = Running"
    using Cons.prems by simp
  from Cons.IH [OF this] step show ?case
    by (simp add: hostRun_def call)
qed

text \<open>
  Claim C6. Every call of the handler returns a response. Either the tool function resolved
  to a text and the response carries that text with no error flag, or an error was thrown
  in the \<open>try\<close> block and the response carries \<open>JSON.stringify\<close> of the object
  \<open>{error: true, message}\<close>, which is the text \<open>{"error":true,"message":"..."}\<close> with the
  error's message quoted, and has \<open>isError\<close> set; the flag is set exactly when something
  in the \<open>try\<close> block threw. No call makes the process exit: a running process that
  receives any sequence of tool calls, failing or not, has returned one response for each,
  in order, and is still running.
\<close>

theorem handler_returns_result_or_error:
  "(case fst (toolCallBody co request) of
      Inr text \<Rightarrow>
        runTool co (req_name request) (req_arguments request) = Inr text
        \<and> fst (toolCallHandler stringify co request) = \<lparr>content_text = text, isError = False\<rparr>
    | Inl message \<Rightarrow>
        fst (toolCallHandler stringify co request)
          = \<lparr>content_text = stringify (JObj [(''error'', JBool True), (''message'', JStr message)]),
             isError = True\<rparr>
        \<and> fst (toolCallHandler JSON_stringify co request)
          = \<lparr>content_text = ''{'' @ [doubleQuote] @ ''error'' @ [doubleQuote] @ '':true,''
               @ [doubleQuote] @ ''message'' @ [doubleQuote] @ '':'' @ quoteJSONString message
               @ ''}'',
             isError = True\<rparr>)
   \<and> (isError (fst (toolCallHandler stringify co request)) \<longleftrightarrow> \<not> callSucceeds co request)
   \<and> (host_phase h = Running \<longrightarrow>
        hostRun stringify (map (\<lambda>(co, request). ToolCall co request) calls) h
          = \<lparr>host_phase = Running,
             host_responses = host_responses h
               @ map (\<lambda>(co, request). fst (toolCallHandler stringify co request)) calls\<rparr>)"
proof -
  have body: "(case fst (toolCallBody co request) of
      Inr text \<Rightarrow>
        runTool co (req_name request) (req_arguments request) = Inr text
        \<and> fst (toolCallHandler stringify co request) = \<lparr>content_text = text, isError = False\<rparr>
    | Inl message \<Rightarrow>
        fst (toolCallHandler stringify co request)
          = \<lparr>content_text = stringify (JObj [(''error'', JBool True), (''message'', JStr message)]),
             isError = True\<rparr>
        \<and> fst (toolCallHandler JSON_stringify co request)
          = \<lparr>content_text = ''{'' @ [doubleQuote] @ ''error'' @ [doubleQuote] @ '':true,''
               @ [doubleQuote] @ ''message'' @ [doubleQuote] @ '':'' @ quoteJSONString message
               @ ''}'',
             isError = True\<rparr>)"
  proof (cases "fst (toolCallBody co request)")
    case (Inl message)
    then have "fst (toolCallHandler f co request)
        = \<lparr>content_text = f (JObj [(''error'', JBool True), (''message'', JStr message)]),
           isError = True\<rparr>" for f
      by (cases "toolCallBody co request") (simp add: toolCallHandler_def errorBody_def)
    from this [of stringify] this [of JSON_stringify] Inl show ?thesis
      by (simp only: errorBody_text sum.simps)
  next
    case (Inr returned)
    then have "fst (toolCallHandler stringify co request)
        = \<lparr>content_text = returned, isError = False\<rparr>"
      by (cases "toolCallBody co request") (simp add: toolCallHandler_def)
    with Inr toolCallBody_success [OF Inr] show ?thesis
      by simp
  qed
  have "hostRun stringify (map (\<lambda>(co, request). ToolCall co request) calls) h
          = \<lparr>host_phase = Running,
             host_responses = host_responses h
               @ map (\<lambda>(co, request). fst (toolCallHandler stringify co request)) calls\<rparr>"
    if "host_phase h = Running"
    using hostRun_tool_calls [OF that, of stringify calls] that
    by (cases h) simp
  with body isError_iff [of stringify co request] show ?thesis
    by blast
qed

theorem handler_returns_result_or_error_witness:
  "hostRun JSON_stringify
     [ToolCall \<lparr>initOutcome = None, managerSet = True, trackerSet = True, cacheSet = True,
           runTool = (\<lambda>n a. Inr ''ok'')\<rparr>
         \<lparr>req_name = ''get_hover'', req_arguments = JNull\<rparr>,
      ToolCall \<lparr>initOutcome = None, managerSet = True, trackerSet = True, cacheSet = True,
           runTool = (\<lambda>n a. Inr ''ok'')\<rparr>
         \<lparr>req_name = ''get_hover'',
           req_arguments = JObj [(''file_path'', JStr ''/src/a.cpp''), (''line'', JInt (- 1)),
             (''column'', JInt 0)]\<rparr>,
      ToolCall \<lparr>initOutcome = Some ''spawn clangd ENOENT'', managerSet = True, trackerSet = False,
           cacheSet = False, runTool = (\<lambda>n a. Inr ''ok'')\<rparr>
         \<lparr>req_name = ''get_document_symbols'',
           req_arguments = JObj [(''file_path'', JStr ''/src/a.cpp'')]\<rparr>,
      ToolCall \<lparr>initOutcome = None, managerSet = True, trackerSet = False, cacheSet = False,
           runTool = (\<lambda>n a. Inr ''ok'')\<rparr>
         \<lparr>req_name = ''get_document_symbols'',
           req_arguments = JObj [(''file_path'', JStr ''/src/a.cpp'')]\<rparr>,
      ToolCall \<lparr>initOutcome = None, managerSet = True, trackerSet = True, cacheSet = True,
           runTool = (\<lambda>n a. Inr ''ok'')\<rparr>
         \<lparr>req_name = ''frobnicate'', req_arguments = JObj [(''file_path'', JStr ''/src/a.cpp'')]\<rparr>,
      ToolCall \<lparr>initOutcome = None, managerSet = True, trackerSet = True, cacheSet = False,
           runTool = (\<lambda>n a. Inr ''ok'')\<rparr>
         \<lparr>req_name = ''get_diagnostics'',
           req_arguments = JObj [(''file_path'', JStr ''/src/a.cpp'')]\<rparr>,
      ToolCall \<lparr>initOutcome = None, managerSet = True, trackerSet = True, cacheSet = True,
           runTool = (\<lambda>n a. Inl (''No '' @ [doubleQuote] @ ''x'' @ [doubleQuote] @ '' in a''
             @ [backslash] @ ''b''))\<rparr>
         \<lparr>req_name = ''get_document_symbols'',
           req_arguments = JObj [(''file_path'', JStr ''/src/a.cpp'')]\<rparr>,
      ToolCall \<lparr>initOutcome = None, managerSet = True, trackerSet = True, cacheSet = True,
           runTool = (\<lambda>n a. Inr ''[]'')\<rparr>
         \<lparr>req_name = ''get_document_symbols'',
           req_arguments = JObj [(''file_path'', JStr ''/src/a.cpp'')]\<rparr>]
     newHost
   = \<lparr>host_phase = Running,
      host_responses =
        [\<lparr>content_text = ''{'' @ [doubleQuote] @ ''error'' @ [doubleQuote] @ '':true,''
             @ [doubleQuote] @ ''message'' @ [doubleQuote] @ '':'' @ [doubleQuote]
             @ ''Missing arguments for tool call'' @ [doubleQuote] @ ''}'',
           isError = True\<rparr>,
         \<lparr>content_text = ''{'' @ [doubleQuote] @ ''error'' @ [doubleQuote] @ '':true,''
             @ [doubleQuote] @ ''message'' @ [doubleQuote] @ '':'' @ [doubleQuote]
             @ ''Invalid line: must be a non-negative integer'' @ [doubleQuote] @ ''}'',
           isError = True\<rparr>,
         \<lparr>content_text = ''{'' @ [doubleQuote] @ ''error'' @ [doubleQuote] @ '':true,''
             @ [doubleQuote] @ ''message'' @ [doubleQuote] @ '':'' @ [doubleQuote]
             @ ''spawn clangd ENOENT'' @ [doubleQuote] @ ''}'',
           isError = True\<rparr>,
         \<lparr>content_text = ''{'' @ [doubleQuote] @ ''error'' @ [doubleQuote] @ '':true,''
             @ [doubleQuote] @ ''message'' @ [doubleQuote] @ '':'' @ [doubleQuote]
             @ ''Clangd not initialized'' @ [doubleQuote] @ ''}'',
           isError = True\<rparr>,
         \<lparr>content_text = ''{'' @ [doubleQuote] @ ''error'' @ [doubleQuote] @ '':true,''
             @ [doubleQuote] @ ''message'' @ [doubleQuote] @ '':'' @ [doubleQuote]
             @ ''Unknown tool: frobnicate'' @ [doubleQuote] @ ''}'',
           isError = True\<rparr>,
         \<lparr>content_text = ''{'' @ [doubleQuote] @ ''error'' @ [doubleQuote] @ '':true,''
             @ [doubleQuote] @ ''message'' @ [doubleQuote] @ '':'' @ [doubleQuote]
             @ ''Diagnostics cache not initialized'' @ [doubleQuote] @ ''}'',
           isError = True\<rparr>,
         \<lparr>content_text = ''{'' @ [doubleQuote] @ ''error'' @ [doubleQuote] @ '':true,''
             @ [doubleQuote] @ ''message'' @ [doubleQuote] @ '':'' @ [doubleQuote]
             @ ''No '' @ [backslash, doubleQuote] @ ''x'' @ [backslash, doubleQuote] @ '' in a''
             @ [backslash, backslash] @ ''b'' @ [doubleQuote] @ ''}'',
           isError = True\<rparr>,
         \<lparr>content_text = ''[]'', isError = False\<rparr>]\<rparr>"
proof -
  have texts:
    "quoteJSONString ''Missing arguments for tool call''
       = [doubleQuote] @ ''Missing arguments for tool call'' @ [doubleQuote]"
    "quoteJSONString ''Invalid line: must be a non-negative integer''
       = [doubleQuote] @ ''Invalid line: must be a non-negative integer'' @ [doubleQuote]"
    "quoteJSONString ''spawn clangd ENOENT'' = [doubleQuote] @ ''spawn clangd ENOENT'' @ [doubleQuote]"
    "quoteJSONString ''Clangd not initialized''
       = [doubleQuote] @ ''Clangd not initialized'' @ [doubleQuote]"
    "quoteJSONString ''Unknown tool: frobnicate''
       = [doubleQuote] @ ''Unknown tool: frobnicate'' @ [doubleQuote]"
    "quoteJSONString ''Diagnostics cache not initialized''
       = [doubleQuote] @ ''Diagnostics cache not initialized'' @ [doubleQuote]"
    "quoteJSONString (''No '' @ [doubleQuote] @ ''x'' @ [doubleQuote] @ '' in a'' @ [backslash] @ ''b'')
       = [doubleQuote] @ ''No '' @ [backslash, doubleQuote] @ ''x'' @ [backslash, doubleQuote]
         @ '' in a'' @ [backslash, backslash] @ ''b'' @ [doubleQuote]"
    by code_simp+
  show ?thesis
    using handler_returns_result_or_error
      [where stringify = JSON_stringify and h = newHost
         and co = "\<lparr>initOutcome = None, managerSet = True, trackerSet = True, cacheSet = True,
           runTool = (\<lambda>n a. Inl (''No '' @ [doubleQuote] @ ''x'' @ [doubleQuote] @ '' in a''
             @ [backslash] @ ''b''))\<rparr>"
         and request = "\<lparr>req_name = ''get_document_symbols'',
           req_arguments = JObj [(''file_path'', JStr ''/src/a.cpp'')]\<rparr>"
         and calls = "[
      (\<lparr>initOutcome = None, managerSet = True, trackerSet = True, cacheSet = True,
           runTool = (\<lambda>n a. Inr ''ok'')\<rparr>,
         \<lparr>req_name = ''get_hover'', req_arguments = JNull\<rparr>),
      (\<lparr>initOutcome = None, managerSet = True, trackerSet = True, cacheSet = True,
           runTool = (\<lambda>n a. Inr ''ok'')\<rparr>,
         \<lparr>req_name = ''get_hover'',
           req_arguments = JObj [(''file_path'', JStr ''/src/a.cpp''), (''line'', JInt (- 1)),
             (''column'', JInt 0)]\<rparr>),
      (\<lparr>initOutcome = Some ''spawn clangd ENOENT'', managerSet = True, trackerSet = False,
           cacheSet = False, runTool = (\<lambda>n a. Inr ''ok'')\<rparr>,
         \<lparr>req_name = ''get_document_symbols'',
           req_arguments = JObj [(''file_path'', JStr ''/src/a.cpp'')]\<rparr>),
      (\<lparr>initOutcome = None, managerSet = True, trackerSet = False, cacheSet = False,
           runTool = (\<lambda>n a. Inr ''ok'')\<rparr>,
         \<lparr>req_name = ''get_document_symbols'',
           req_arguments = JObj [(''file_path'', JStr ''/src/a.cpp'')]\<rparr>),
      (\<lparr>initOutcome = None, managerSet = True, trackerSet = True, cacheSet = True,
           runTool = (\<lambda>n a. Inr ''ok'')\<rparr>,
         \<lparr>req_name = ''frobnicate'', req_arguments = JObj [(''file_path'', JStr ''/src/a.cpp'')]\<rparr>),
      (\<lparr>initOutcome = None, managerSet = True, trackerSet = True, cacheSet = False,
           runTool = (\<lambda>n a. Inr ''ok'')\<rparr>,
         \<lparr>req_name = ''get_diagnostics'',
           req_arguments = JObj [(''file_path'', JStr ''/src/a.cpp'')]\<rparr>),
      (\<lparr>initOutcome = None, managerSet = True, trackerSet = True, cacheSet = True,
           runTool = (\<lambda>n a. Inl (''No '' @ [doubleQuote] @ ''x'' @ [doubleQuote] @ '' in a''
             @ [backslash] @ ''b''))\<rparr>,
         \<lparr>req_name = ''get_document_symbols'',
           req_arguments = JObj [(''file_path'', JStr ''/src/a.cpp'')]\<rparr>),
      (\<lparr>initOutcome = None, managerSet = True, trackerSet = True, cacheSet = True,
           runTool = (\<lambda>n a. Inr ''[]'')\<rparr>,
         \<lparr>req_name = ''get_document_symbols'',
           req_arguments = JObj [(''file_path'', JStr ''/src/a.cpp'')]\<rparr>)]"]
    by (simp add: newHost_def toolCallHandler_def toolCallBody_def validateToolArgs_def
        validatePositionArgs_def invalidPosition_def toolNames_def errorBody_def
        errorBody_text texts [simplified])
qed

text \<open>
  Once a signal has set \<open>isShuttingDown\<close> a valid call is answered with the error
  \<open>Server is shutting down\<close>, still as a response; after the exit nothing is answered.
\<close>

lemma host_shutting_down:
  "hostRun (\<lambda>v. ''{}'')
     [Signal,
      ToolCall \<lparr>initOutcome = None, managerSet = True, trackerSet = True, cacheSet = True,
           runTool = (\<lambda>n a. Inr ''[]'')\<rparr>
         \<lparr>req_name = ''get_document_symbols'',
           req_arguments = JObj [(''file_path'', JStr ''/src/a.cpp'')]\<rparr>,
      ShutdownEnded,
      ToolCall \<lparr>initOutcome = None, managerSet = True, trackerSet = True, cacheSet = True,
           runTool = (\<lambda>n a. Inr ''[]'')\<rparr>
         \<lparr>req_name = ''get_document_symbols'',
           req_arguments = JObj [(''file_path'', JStr ''/src/a.cpp'')]\<rparr>]
     newHost
   = \<lparr>host_phase = Exited, host_responses = [\<lparr>content_text = ''{}'', isError = True\<rparr>]\<rparr>"
  by (simp add: hostRun_def newHost_def toolCallHandler_def toolCallBody_def validateToolArgs_def
      toolNames_def)

text \<open>
  The first signal starts the shutdown and a second one, or the end of the shutdown, ends
  the process; the end of a shutdown that was never started changes nothing, and a request
  that arrives during the shutdown is answered with \<open>Server is shutting down\<close>.
\<close>

lemma host_signals:
  "hostRun stringify [Signal] newHost = \<lparr>host_phase = ShuttingDown, host_responses = []\<rparr>"
  "hostRun stringify [Signal, Signal, Signal] newHost = \<lparr>host_phase = Exited, host_responses = []\<rparr>"
  "hostRun stringify [ShutdownEnded] newHost = newHost"
  "hostRun stringify [Signal, ShutdownEnded, ShutdownEnded, Signal] newHost
     = \<lparr>host_phase = Exited, host_responses = []\<rparr>"
  by (simp_all add: hostRun_def newHost_def)

lemma host_answers_while_shutting_down:
  "hostRun JSON_stringify
     [Signal,
      ToolCall \<lparr>initOutcome = None, managerSet = True, trackerSet = True, cacheSet = True,
           runTool = (\<lambda>n a. Inr ''[]'')\<rparr>
         \<lparr>req_name = ''get_document_symbols'',
           req_arguments = JObj [(''file_path'', JStr ''/src/a.cpp'')]\<rparr>]
     newHost
   = \<lparr>host_phase = ShuttingDown,
       host_responses =
         [\<lparr>content_text = ''{'' @ [doubleQuote] @ ''error'' @ [doubleQuote] @ '':true,''
              @ [doubleQuote] @ ''message'' @ [doubleQuote] @ '':'' @ [doubleQuote]
              @ ''Server is shutting down'' @ [doubleQuote] @ ''}'',
            isError = True\<rparr>]\<rparr>"
  by code_simp

text \<open>
  \<open>JSON.stringify\<close> on values of every kind: the escapes of a quoted string, members with
  an \<open>undefined\<close> value left out, \<open>undefined\<close> elements of an array printed as \<open>null\<close>.
\<close>

lemma JSON_stringify_examples:
  "quoteJSONString [CHR ''a'', CHR 0x08, CHR 0x09, CHR 0x0A, CHR 0x0C, CHR 0x0D, CHR 0x01,
       CHR 0x1F, doubleQuote, backslash, CHR ''/'', CHR '' '']
     = [doubleQuote, CHR ''a'', backslash, CHR ''b'', backslash, CHR ''t'', backslash, CHR ''n'',
        backslash, CHR ''f'', backslash, CHR ''r'',
        backslash, CHR ''u'', CHR ''0'', CHR ''0'', CHR ''0'', CHR ''1'',
        backslash, CHR ''u'', CHR ''0'', CHR ''0'', CHR ''1'', CHR ''f'',
        backslash, doubleQuote, backslash, backslash, CHR ''/'', CHR '' '', doubleQuote]"
  "JSON_stringify
       (JObj [(''a'', JArr [JInt 1, JUndefined, JNull, JBool False, JInt (- 20), JNonInt]),
              (''b'', JUndefined), (''c'', JObj []), (''d'', JArr []), (''e'', JInt 0)])
     = ''{'' @ [doubleQuote] @ ''a'' @ [doubleQuote] @ '':[1,null,null,false,-20,null],''
        @ [doubleQuote] @ ''c'' @ [doubleQuote] @ '':{},''
        @ [doubleQuote] @ ''d'' @ [doubleQuote] @ '':[],''
        @ [doubleQuote] @ ''e'' @ [doubleQuote] @ '':0}''"
  "JSON_stringify JUndefined = []"
  "JSON_stringify (JStr []) = [doubleQuote, doubleQuote]"
  by code_simp+

section \<open>Properties of generateClangdArgs\<close>

lemma list_ex_if_single: "list_ex P (if c then [] else [v]) \<longleftrightarrow> \<not> c \<and> P v"
  by simp

lemma pushUnlessPresent_append:
  "\<not> list_ex (prefix p) ys \<Longrightarrow>
   pushUnlessPresent p v (xs @ ys) = xs @ ys @ (if list_ex (prefix p) xs then [] else [v])"
  by (auto simp: pushUnlessPresent_def list_ex_iff)

lemma not_prefix_append: "\<not> prefix p c \<Longrightarrow> \<not> prefix c p \<Longrightarrow> \<not> prefix p (c @ d)"
  by (auto simp: prefix_append)

lemma compileCommandsArg_no_prefix:
  assumes "\<not> prefix p ''--compile-commands-dir=''" and "\<not> prefix ''--compile-commands-dir='' p"
  shows "\<not> list_ex (prefix p) (compileCommandsArg dirname ccp)"
  using not_prefix_append [OF assms]
  by (simp add: compileCommandsArg_def split: option.splits)

lemma generateClangdArgs_eq:
  "generateClangdArgs dirname env ic ccp =
     userArgs env @ compileCommandsArg dirname ccp @
     (if list_ex (prefix ''--background-index'') (userArgs env) then [] else [''--background-index=false'']) @
     (if list_ex (prefix ''--limit-references'') (userArgs env) then [] else [''--limit-references=1000'']) @
     (if list_ex (prefix ''--limit-results'') (userArgs env) then [] else [''--limit-results=1000'']) @
     (if list_ex (prefix ''--pch-storage'') (userArgs env) then [] else [''--pch-storage=memory'']) @
     (if list_ex (prefix ''--clang-tidy'') (userArgs env) then [] else [''--clang-tidy=false'']) @
     (if list_ex (prefix ''--log'') (userArgs env) then [] else [''--log='' @ logLevel env])"
proof -
  let ?U = "userArgs env" and ?C = "compileCommandsArg dirname ccp"
  have a1: "(case ccp of None \<Rightarrow> ?U
            | Some p \<Rightarrow> if p \<noteq> [] then ?U @ [''--compile-commands-dir='' @ dirname p] else ?U) = ?U @ ?C"
    by (simp add: compileCommandsArg_def split: option.splits)
  note np = compileCommandsArg_no_prefix
  show ?thesis
    unfolding generateClangdArgs_def Let_def a1
    by (simp add: pushUnlessPresent_append np list_ex_if_single split del: if_split) simp
qed

lemma parseShellArgs_empty: "parseShellArgs [] = []"
  by (simp add: parseShellArgs_def parse_init_def)

lemma userArgs_eq:
  "userArgs env = (case CLANGD_ARGS env of None \<Rightarrow> [] | Some s \<Rightarrow> parseShellArgs s)"
  by (simp add: userArgs_def parseShellArgs_empty split: option.splits)

lemma filter_if_single: "filter P (if c then [] else [v]) = (if \<not> c \<and> P v then [v] else [])"
  by simp

text \<open>
  Claim C10. With \<open>user\<close> the arguments that \<open>parseShellArgs\<close> makes of \<open>CLANGD_ARGS\<close>
  (none when the variable is unset), the result of \<open>generateClangdArgs\<close> is: \<open>user\<close>,
  unchanged and in order; then \<open>--compile-commands-dir=<dir>\<close> when a path was found;
  then, in this order, each of \<open>--background-index=false\<close>, \<open>--limit-references=1000\<close>,
  \<open>--limit-results=1000\<close>, \<open>--pch-storage=memory\<close>, \<open>--clang-tidy=false\<close> and
  \<open>--log=<level>\<close> exactly when no argument of \<open>user\<close> starts with its flag prefix;
  the level is \<open>CLANGD_LOG_LEVEL\<close> when that is set and not empty, and \<open>error\<close> otherwise.
  When the user gives a \<open>--background-index\<close> argument, the arguments of the result that
  start with \<open>--background-index\<close> are the user's own.
\<close>

theorem generateClangdArgs_keeps_user_args:
  fixes dirname env isChromiumProject ccp
  defines "user \<equiv> (case CLANGD_ARGS env of None \<Rightarrow> [] | Some s \<Rightarrow> parseShellArgs s)"
  defines "unlessGiven \<equiv> (\<lambda>p v. if list_ex (prefix p) user then [] else [v])"
  shows "generateClangdArgs dirname env isChromiumProject ccp =
       user
       @ (case ccp of
            None \<Rightarrow> []
          | Some path \<Rightarrow> if path = [] then [] else [''--compile-commands-dir='' @ dirname path])
       @ unlessGiven ''--background-index'' ''--background-index=false''
       @ unlessGiven ''--limit-references'' ''--limit-references=1000''
       @ unlessGiven ''--limit-results'' ''--limit-results=1000''
       @ unlessGiven ''--pch-storage'' ''--pch-storage=memory''
       @ unlessGiven ''--clang-tidy'' ''--clang-tidy=false''
       @ unlessGiven ''--log''
           (''--log='' @ (case CLANGD_LOG_LEVEL env of
                            None \<Rightarrow> ''error''
                          | Some level \<Rightarrow> if level = [] then ''error'' else level))
   \<and> (list_ex (prefix ''--background-index'') user \<longrightarrow>
         filter (prefix ''--background-index'')
           (generateClangdArgs dirname env isChromiumProject ccp)
         = filter (prefix ''--background-index'') user)"
proof -
  have user: "userArgs env = user"
    by (simp add: user_def userArgs_eq)
  have ccp: "compileCommandsArg dirname ccp =
      (case ccp of
         None \<Rightarrow> []
       | Some path \<Rightarrow> if path = [] then [] else [''--compile-commands-dir='' @ dirname path])"
    by (simp add: compileCommandsArg_def split: option.splits)
  have level: "logLevel env =
      (case CLANGD_LOG_LEVEL env of
         None \<Rightarrow> ''error''
       | Some level \<Rightarrow> if level = [] then ''error'' else level)"
    by (simp add: logLevel_def split: option.splits)
  have eq: "generateClangdArgs dirname env isChromiumProject ccp =
       user @ compileCommandsArg dirname ccp
       @ unlessGiven ''--background-index'' ''--background-index=false''
       @ unlessGiven ''--limit-references'' ''--limit-references=1000''
       @ unlessGiven ''--limit-results'' ''--limit-results=1000''
       @ unlessGiven ''--pch-storage'' ''--pch-storage=memory''
       @ unlessGiven ''--clang-tidy'' ''--clang-tidy=false''
       @ unlessGiven ''--log'' (''--log='' @ logLevel env)"
    unfolding unlessGiven_def user [symmetric] by (rule generateClangdArgs_eq)
  have own: "filter (prefix ''--background-index'')
           (generateClangdArgs dirname env isChromiumProject ccp)
         = filter (prefix ''--background-index'') user"
    if "list_ex (prefix ''--background-index'') user"
  proof -
    have "filter (prefix ''--background-index'') (compileCommandsArg dirname ccp) = []"
      using compileCommandsArg_no_prefix [of "''--background-index''" dirname ccp]
      by (simp add: list_ex_iff filter_empty_conv)
    moreover have "filter (prefix ''--background-index'') (unlessGiven ''--log'' (''--log='' @ logLevel env)) = []"
      by (simp add: unlessGiven_def)
    ultimately show ?thesis
      unfolding eq using that by (simp add: unlessGiven_def)
  qed
  from eq own show ?thesis
    unfolding ccp level by blast
qed

lemma parseShellArgs_examples:
  "parseShellArgs (''--background-index=true '' @ [singleQuote] @ ''--query-driver=/opt/my gcc''
       @ [singleQuote] @ '' a'' @ [backslash] @ '' b  '' @ [doubleQuote] @ ''it'' @ [singleQuote]
       @ ''s'' @ [doubleQuote])
     = [''--background-index=true'', ''--query-driver=/opt/my gcc'', ''a b'',
        ''it'' @ [singleQuote] @ ''s'']"
  "parseShellArgs ''--log=info --limit-results=5'' = [''--log=info'', ''--limit-results=5'']"
  "parseShellArgs ([singleQuote] @ ''a'' @ [backslash] @ ''b'' @ [doubleQuote] @ [singleQuote]
       @ '' '' @ [doubleQuote] @ ''c'' @ [backslash, doubleQuote] @ ''d e'' @ [singleQuote]
       @ [doubleQuote] @ ''f '' @ [singleQuote, singleQuote] @ '' '' @ [backslash])
     = [''a'' @ [backslash] @ ''b'' @ [doubleQuote],
        ''c'' @ [doubleQuote] @ ''d e'' @ [singleQuote] @ ''f'']"
  by code_simp+

theorem generateClangdArgs_keeps_user_args_witness:
  "generateClangdArgs (\<lambda>p. ''/b'')
      \<lparr>CLANGD_ARGS = Some (''--background-index=true '' @ [singleQuote]
          @ ''--query-driver=/opt/my gcc'' @ [singleQuote] @ '' a'' @ [backslash] @ '' b  ''
          @ [doubleQuote] @ ''it'' @ [singleQuote] @ ''s'' @ [doubleQuote]),
        CLANGD_LOG_LEVEL = None\<rparr>
      False None
     = [''--background-index=true'', ''--query-driver=/opt/my gcc'', ''a b'',
        ''it'' @ [singleQuote] @ ''s'',
        ''--limit-references=1000'', ''--limit-results=1000'', ''--pch-storage=memory'',
        ''--clang-tidy=false'', ''--log=error'']
   \<and> filter (prefix ''--background-index'')
        (generateClangdArgs (\<lambda>p. ''/b'')
           \<lparr>CLANGD_ARGS = Some (''--background-index=true '' @ [singleQuote]
               @ ''--query-driver=/opt/my gcc'' @ [singleQuote] @ '' a'' @ [backslash] @ '' b  ''
               @ [doubleQuote] @ ''it'' @ [singleQuote] @ ''s'' @ [doubleQuote]),
             CLANGD_LOG_LEVEL = None\<rparr>
           False None)
     = [''--background-index=true'']
   \<and> generateClangdArgs (\<lambda>p. ''/b'')
        \<lparr>CLANGD_ARGS = None, CLANGD_LOG_LEVEL = Some ''verbose''\<rparr>
        True (Some ''/b/compile_commands.json'')
     = [''--compile-commands-dir=/b'', ''--background-index=false'', ''--limit-references=1000'',
        ''--limit-results=1000'', ''--pch-storage=memory'', ''--clang-tidy=false'',
        ''--log=verbose'']
   \<and> generateClangdArgs (\<lambda>p. ''/b'')
        \<lparr>CLANGD_ARGS = Some ''--log=info --limit-results=5'', CLANGD_LOG_LEVEL = Some []\<rparr>
        False (Some [])
     = [''--log=info'', ''--limit-results=5'', ''--background-index=false'',
        ''--limit-references=1000'', ''--pch-storage=memory'', ''--clang-tidy=false'']"
  using generateClangdArgs_keeps_user_args [of "\<lambda>p. ''/b''"
      "\<lparr>CLANGD_ARGS = Some (''--background-index=true '' @ [singleQuote]
          @ ''--query-driver=/opt/my gcc'' @ [singleQuote] @ '' a'' @ [backslash] @ '' b  ''
          @ [doubleQuote] @ ''it'' @ [singleQuote] @ ''s'' @ [doubleQuote]),
        CLANGD_LOG_LEVEL = None\<rparr>" False None]
    generateClangdArgs_keeps_user_args [of "\<lambda>p. ''/b''"
      "\<lparr>CLANGD_ARGS = None, CLANGD_LOG_LEVEL = Some ''verbose''\<rparr>"
      True "Some ''/b/compile_commands.json''"]
    generateClangdArgs_keeps_user_args [of "\<lambda>p. ''/b''"
      "\<lparr>CLANGD_ARGS = Some ''--log=info --limit-results=5'', CLANGD_LOG_LEVEL = Some []\<rparr>"
      False "Some []"]
  by (simp add: parseShellArgs_examples [simplified])

section \<open>Properties of detectCMakeSources\<close>

lemma resolveFilePath_absolute:
  "resolveFilePath resolve cmd = Some p \<Longrightarrow>
   prefix ''/'' p \<or> (\<exists>directory file. p = resolve directory file)"
  by (auto simp: resolveFilePath_def split: jsval.splits if_splits)

lemma scanCommand_good:
  assumes "scanCommand resolve projectRoot allExcludes sources cmd = Some sources'"
    and "distinct sources" and "\<forall>p \<in> set sources. goodSource resolve projectRoot allExcludes p"
  shows "distinct sources' \<and> (\<forall>p \<in> set sources'. goodSource resolve projectRoot allExcludes p)"
proof -
  from assms(1) obtain filePath where fp: "resolveFilePath resolve cmd = Some filePath"
    by (auto simp: scanCommand_def split: option.splits)
  show ?thesis
  proof (cases "sources' = sources")
    case True
    with assms show ?thesis by simp
  next
    case False
    with assms(1) fp have new: "sources' = setAdd filePath sources"
      and "prefix projectRoot filePath" and "isSourceFile filePath"
      and "\<not> isExcludedPath allExcludes (drop (length projectRoot + 1) filePath)"
      by (auto simp: scanCommand_def split: if_splits)
    with resolveFilePath_absolute [OF fp]
    have "goodSource resolve projectRoot allExcludes filePath"
      by (simp add: goodSource_def)
    with assms(2,3) show ?thesis
      by (auto simp: new setAdd_def)
  qed
qed

lemma scanCommands_good:
  "scanCommands resolve projectRoot allExcludes sources cmds = Some result \<Longrightarrow>
   distinct sources \<Longrightarrow> \<forall>p \<in> set sources. goodSource resolve projectRoot allExcludes p \<Longrightarrow>
   distinct result \<and> (\<forall>p \<in> set result. goodSource resolve projectRoot allExcludes p)"
proof (induction cmds arbitrary: sources)
  case Nil
  then show ?case by simp
next
  case (Cons cmd cmds)
  from Cons.prems(1) obtain sources' where
    step: "scanCommand resolve projectRoot allExcludes sources cmd = Some sources'"
    and rest: "scanCommands resolve projectRoot allExcludes sources' cmds = Some result"
    by (auto split: option.splits)
  from scanCommand_good [OF step Cons.prems(2,3)] Cons.IH [OF rest]
  show ?case by blast
qed

lemma detectCMakeSources_good:
  "distinct (detectCMakeSources existsSync join readJson resolve projectRoot excludePaths)
   \<and> (\<forall>p \<in> set (detectCMakeSources existsSync join readJson resolve projectRoot excludePaths).
         goodSource resolve projectRoot (DEFAULT_EXCLUDE_PATHS @ excludePaths) p)"
  using scanCommands_good [of resolve projectRoot "DEFAULT_EXCLUDE_PATHS @ excludePaths" "[]"]
  by (auto simp: detectCMakeSources_def Let_def split: option.splits)

lemma not_excluded_under:
  assumes "\<not> isExcludedPath allExcludes (drop (length projectRoot + 1) p)"
    and "exc \<in> set allExcludes"
  shows "p \<noteq> projectRoot @ ''/'' @ exc @ rest"
    and "p \<noteq> projectRoot @ ''/'' @ dir @ ''/'' @ exc @ rest"
proof -
  from assms have a: "\<not> prefix exc (drop (length projectRoot + 1) p)"
    and b: "\<not> sublist (''/'' @ exc) (drop (length projectRoot + 1) p)"
    by (auto simp: isExcludedPath_def list_ex_iff)
  show "p \<noteq> projectRoot @ ''/'' @ exc @ rest"
    using a by auto
  show "p \<noteq> projectRoot @ ''/'' @ dir @ ''/'' @ exc @ rest"
  proof
    assume "p = projectRoot @ ''/'' @ dir @ ''/'' @ exc @ rest"
    then have "drop (length projectRoot + 1) p = dir @ (''/'' @ exc) @ rest"
      by simp
    with b show False
      unfolding sublist_def by blast
  qed
qed

lemma extensions_apart:
  "list_all (\<lambda>e. list_all (\<lambda>h. \<not> suffix e h \<and> \<not> suffix h e) headerExtensions) sourceExtensions"
  by code_simp

lemma source_not_header:
  assumes "isSourceFile p"
  shows "\<not> list_ex (\<lambda>ext. suffix ext (map lowerAscii p)) headerExtensions"
proof
  assume "list_ex (\<lambda>ext. suffix ext (map lowerAscii p)) headerExtensions"
  then obtain h where h: "h \<in> set headerExtensions" "suffix h (map lowerAscii p)"
    by (auto simp: list_ex_iff)
  from assms obtain e where e: "e \<in> set sourceExtensions" "suffix e (map lowerAscii p)"
    by (auto simp: isSourceFile_def list_ex_iff)
  from e(2) h(2) have "suffix e h \<or> suffix h e"
    by (rule suffix_same_cases)
  moreover from extensions_apart e(1) h(1) have "\<not> suffix e h \<and> \<not> suffix h e"
    by (auto simp: list_all_iff)
  ultimately show False by blast
qed

text \<open>
  What holds of the result for every project root. The list has no duplicates, and every
  path in it starts with the project root, ends with one of the source extensions (compared
  without case) and with none of the header extensions, and passed the function's own
  exclusion test: the part of the path after \<open>projectRoot.length + 1\<close> characters
  neither starts with an excluded prefix (a default one or one the caller gave) nor contains
  one right after a slash. The path is absolute: it is a \<open>file\<close> entry that starts with a
  slash or a result of \<open>path.resolve\<close>, which returns absolute paths. When no
  compile_commands.json is found, or it cannot be read or parsed, or it holds no list, the
  result is the empty list.
\<close>

lemma detectCMakeSources_results:
  fixes existsSync join readJson resolve projectRoot excludePaths
  defines "result \<equiv> detectCMakeSources existsSync join readJson resolve projectRoot excludePaths"
  shows "distinct result
    \<and> (\<forall>p \<in> set result.
         prefix projectRoot p
         \<and> isSourceFile p
         \<and> \<not> list_ex (\<lambda>ext. suffix ext (map lowerAscii p)) headerExtensions
         \<and> \<not> isExcludedPath (DEFAULT_EXCLUDE_PATHS @ excludePaths) (drop (length projectRoot + 1) p)
         \<and> (\<forall>exc \<in> set (DEFAULT_EXCLUDE_PATHS @ excludePaths). \<forall>dir rest.
               p \<noteq> projectRoot @ ''/'' @ exc @ rest
               \<and> p \<noteq> projectRoot @ ''/'' @ dir @ ''/'' @ exc @ rest)
         \<and> ((\<forall>directory file. prefix ''/'' (resolve directory file)) \<longrightarrow> prefix ''/'' p))
    \<and> (findCompileCommands existsSync join projectRoot = None \<longrightarrow> result = [])
    \<and> (\<forall>path. findCompileCommands existsSync join projectRoot = Some path
           \<and> (readJson path = None \<or> (\<exists>v. readJson path = Some v \<and> iterate v = None))
           \<longrightarrow> result = [])"
proof -
  have good: "goodSource resolve projectRoot (DEFAULT_EXCLUDE_PATHS @ excludePaths) p"
    if "p \<in> set result" for p
    using that detectCMakeSources_good [of existsSync join readJson resolve projectRoot excludePaths]
    by (simp add: result_def)
  have each: "prefix projectRoot p
         \<and> isSourceFile p
         \<and> \<not> list_ex (\<lambda>ext. suffix ext (map lowerAscii p)) headerExtensions
         \<and> \<not> isExcludedPath (DEFAULT_EXCLUDE_PATHS @ excludePaths) (drop (length projectRoot + 1) p)
         \<and> (\<forall>exc \<in> set (DEFAULT_EXCLUDE_PATHS @ excludePaths). \<forall>dir rest.
               p \<noteq> projectRoot @ ''/'' @ exc @ rest
               \<and> p \<noteq> projectRoot @ ''/'' @ dir @ ''/'' @ exc @ rest)
         \<and> ((\<forall>directory file. prefix ''/'' (resolve directory file)) \<longrightarrow> prefix ''/'' p)"
    if "p \<in> set result" for p
  proof -
    from good [OF that] have g: "prefix projectRoot p" "isSourceFile p"
      "\<not> isExcludedPath (DEFAULT_EXCLUDE_PATHS @ excludePaths) (drop (length projectRoot + 1) p)"
      "prefix ''/'' p \<or> (\<exists>directory file. p = resolve directory file)"
      by (simp_all add: goodSource_def)
    from g(4) have "(\<forall>directory file. prefix ''/'' (resolve directory file)) \<longrightarrow> prefix ''/'' p"
      by blast
    with g(1,2,3) source_not_header [OF g(2)] not_excluded_under [OF g(3)]
    show ?thesis by blast
  qed
  have missing: "result = []" if "findCompileCommands existsSync join projectRoot = None"
    using that by (simp add: result_def detectCMakeSources_def)
  have unreadable: "result = []"
    if "findCompileCommands existsSync join projectRoot = Some path"
      and "readJson path = None \<or> (\<exists>v. readJson path = Some v \<and> iterate v = None)" for path
    using that by (auto simp: result_def detectCMakeSources_def)
  have "distinct result"
    using detectCMakeSources_good [of existsSync join readJson resolve projectRoot excludePaths]
    by (simp add: result_def)
  with each missing unreadable show ?thesis
    by blast
qed

text \<open>
  Claim C8. The exclusion test skips \<open>projectRoot.length + 1\<close> characters of the path,
  one more than the root for the separator that follows it. A project root that itself ends
  in a slash, as the file system root \<open>/\<close> does (\<open>PROJECT_ROOT=/\<close>), has no such
  separator, so the test runs on the path without its first character and the files of
  \<open>/build/\<close> and \<open>/third_party/\<close> are returned although both directories are default
  exclusions. The same entries under the root \<open>/p\<close> are excluded.
\<close>

theorem detectCMakeSources_root_slash_keeps_excluded:
  "detectCMakeSources ((=) ''/compile_commands.json'')
      (\<lambda>a b. if suffix ''/'' a then a @ b else a @ ''/'' @ b)
      (\<lambda>path. Some (JArr
        [JObj [(''directory'', JStr ''/build''), (''file'', JStr ''/build/x.c'')],
         JObj [(''directory'', JStr ''/build''), (''file'', JStr ''/third_party/y.cpp'')],
         JObj [(''directory'', JStr ''/build''), (''file'', JStr ''/src/a.cpp'')]]))
      (\<lambda>directory file. directory @ ''/'' @ file)
      ''/'' []
     = [''/build/x.c'', ''/third_party/y.cpp'', ''/src/a.cpp'']
   \<and> ''build/'' \<in> set DEFAULT_EXCLUDE_PATHS
   \<and> prefix (''/'' @ ''build/'') ''/build/x.c''
   \<and> ''third_party/'' \<in> set DEFAULT_EXCLUDE_PATHS
   \<and> prefix (''/'' @ ''third_party/'') ''/third_party/y.cpp''
   \<and> detectCMakeSources ((=) ''/p/compile_commands.json'')
      (\<lambda>a b. if suffix ''/'' a then a @ b else a @ ''/'' @ b)
      (\<lambda>path. Some (JArr
        [JObj [(''directory'', JStr ''/p/build''), (''file'', JStr ''/p/build/x.c'')],
         JObj [(''directory'', JStr ''/p/build''), (''file'', JStr ''/p/third_party/y.cpp'')],
         JObj [(''directory'', JStr ''/p/build''), (''file'', JStr ''/p/src/a.cpp'')]]))
      (\<lambda>directory file. directory @ ''/'' @ file)
      ''/p'' []
     = [''/p/src/a.cpp'']"
  by code_simp

text \<open>
  A project as it usually is, with root \<open>/p\<close> and \<open>gen/\<close> excluded by the caller: the
  sources of the project are returned once each, in the order of the file, in any case of
  the extension; headers, files of excluded directories and files outside the project are
  not. Without a \<open>compile_commands.json\<close>, with one that cannot be read, or with one that
  is not an array, the result is empty.
\<close>

lemma detectCMakeSources_examples:
  "detectCMakeSources ((=) ''/p/build/compile_commands.json'')
      (\<lambda>a b. a @ ''/'' @ b)
      (\<lambda>path. Some (JArr
        [JObj [(''directory'', JStr ''/p/build''), (''file'', JStr ''/p/src/a.cpp'')],
         JObj [(''directory'', JStr ''/p''), (''file'', JStr ''src/B.CPP'')],
         JObj [(''directory'', JStr ''/p/build''), (''file'', JStr ''/p/src/a.cpp'')],
         JObj [(''directory'', JStr ''/p''), (''file'', JStr ''/p/third_party/x.c'')],
         JObj [(''directory'', JStr ''/p''), (''file'', JStr ''/p/src/a.h'')],
         JObj [(''directory'', JStr ''/p''), (''file'', JStr ''/p/gen/g.cc'')],
         JObj [(''directory'', JStr ''/p''), (''file'', JStr ''/other/z.cpp'')]]))
      (\<lambda>directory file. (if prefix ''/'' directory then directory else ''/cwd/'' @ directory) @ ''/'' @ file)
      ''/p'' [''gen/'']
     = [''/p/src/a.cpp'', ''/p/src/B.CPP'']"
  "detectCMakeSources (\<lambda>path. False) (\<lambda>a b. a @ ''/'' @ b)
      (\<lambda>path. Some (JArr [JObj [(''directory'', JStr ''/p''), (''file'', JStr ''/p/a.cpp'')]]))
      (\<lambda>directory file. file) ''/p'' [] = []"
  "detectCMakeSources ((=) ''/p/compile_commands.json'') (\<lambda>a b. a @ ''/'' @ b) (\<lambda>path. None)
      (\<lambda>directory file. file) ''/p'' [] = []"
  "detectCMakeSources ((=) ''/p/compile_commands.json'') (\<lambda>a b. a @ ''/'' @ b)
      (\<lambda>path. Some (JObj [(''directory'', JStr ''/p''), (''file'', JStr ''/p/a.cpp'')]))
      (\<lambda>directory file. file) ''/p'' [] = []"
  by code_simp+

section \<open>Properties of workspaceSymbolSearch\<close>

lemma filteredSymbols_subset:
  "set (filteredSymbols uriToPath projectRoot includeExternal excludePaths symbols) \<subseteq> set symbols"
  by (auto simp: filteredSymbols_def applyExcludePaths_def filterToProject_def)

lemma filteredSymbols_in_project:
  assumes "symbol \<in> set (filteredSymbols uriToPath projectRoot False excludePaths symbols)"
  shows "prefix projectRoot (uriToPath (sym_uri symbol))"
proof (cases "projectRoot = []")
  case True
  then show ?thesis by simp
next
  case False
  with assms show ?thesis
    by (auto simp: filteredSymbols_def applyExcludePaths_def filterToProject_def split: if_splits)
qed

lemma set_sliceTo: "set (sliceTo xs limit) \<subseteq> set xs"
  by (auto simp: sliceTo_def dest: in_set_takeD)

lemma length_sliceTo: "0 \<le> limit \<Longrightarrow> int (length (sliceTo xs limit)) \<le> limit"
  by (simp add: sliceTo_def)

lemma length_sliceTo_eq: "0 \<le> limit \<Longrightarrow> length (sliceTo xs limit) = min (length xs) (nat limit)"
  by (simp add: sliceTo_def)

lemma wss_empty:
  "filteredSymbols uriToPath projectRoot (includeExternalOf options)
      (excludePathsOf options) (case result of None \<Rightarrow> [] | Some xs \<Rightarrow> xs) = [] \<Longrightarrow>
   workspaceSymbolSearch uriToPath symbolKindNames (Inr result) projectRoot options
     = Inr (NotFound (notFoundMessage (opt_query options) projectRoot (includeExternalOf options) (excludePathsOf options)))"
  by (simp add: workspaceSymbolSearch_def Let_def)

lemma wss_found:
  "filteredSymbols uriToPath projectRoot (includeExternalOf options)
      (excludePathsOf options) (case result of None \<Rightarrow> [] | Some xs \<Rightarrow> xs) = filtered \<Longrightarrow>
   filtered \<noteq> [] \<Longrightarrow>
   workspaceSymbolSearch uriToPath symbolKindNames (Inr result) projectRoot options
     = Inr (Found
         \<lparr>r_count = length filtered,
          r_returned = length (sliceTo filtered (limitOf options)),
          r_truncated = (int (length filtered) > limitOf options),
          r_projectRoot = projectRoot,
          r_includeExternal = includeExternalOf options,
          r_excludePaths = (if excludePathsOf options \<noteq> [] then Some (excludePathsOf options) else None),
          r_symbols = map (formatSymbol uriToPath symbolKindNames)
                        (sliceTo filtered (limitOf options))\<rparr>)"
  by (simp add: workspaceSymbolSearch_def Let_def)

lemma formatted_in_project:
  assumes "\<not> includeExternal"
    and "s \<in> set (map (formatSymbol uriToPath symbolKindNames)
           (sliceTo (filteredSymbols uriToPath projectRoot includeExternal excludePaths symbols) limit))"
  shows "prefix projectRoot (f_file s)"
proof -
  from assms(2) obtain symbol where s: "s = formatSymbol uriToPath symbolKindNames symbol"
    and "symbol \<in> set (sliceTo (filteredSymbols uriToPath projectRoot includeExternal excludePaths symbols) limit)"
    by auto
  then have "symbol \<in> set (filteredSymbols uriToPath projectRoot False excludePaths symbols)"
    using set_sliceTo assms(1) by fastforce
  then have "prefix projectRoot (uriToPath (sym_uri symbol))"
    by (rule filteredSymbols_in_project)
  then show ?thesis by (simp add: s formatSymbol_def)
qed

lemma filteredSymbols_eq:
  "filteredSymbols uriToPath projectRoot includeExternal excludePaths symbols =
     filter (\<lambda>s. (includeExternal \<or> projectRoot = []
                    \<or> prefix projectRoot (uriToPath (sym_uri s)))
                \<and> \<not> (\<exists>exc \<in> set excludePaths.
                       if prefix ''/'' exc then prefix exc (uriToPath (sym_uri s))
                       else prefix exc (drop (length projectRoot + 1) (uriToPath (sym_uri s)))
                            \<or> sublist (''/'' @ exc)
                                 (drop (length projectRoot + 1) (uriToPath (sym_uri s)))))
       symbols"
proof -
  have ex: "list_ex (matchesExclude projectRoot filePath) excludePaths \<longleftrightarrow>
      (\<exists>exc \<in> set excludePaths.
         if prefix ''/'' exc then prefix exc filePath
         else prefix exc (drop (length projectRoot + 1) filePath)
              \<or> sublist (''/'' @ exc) (drop (length projectRoot + 1) filePath))" for filePath
    by (simp add: list_ex_iff matchesExclude_def Let_def)
  show ?thesis
  proof (cases "excludePaths = []")
    case True
    then show ?thesis
      by (simp add: filteredSymbols_def applyExcludePaths_def filterToProject_def)
  next
    case False
    then show ?thesis
      unfolding filteredSymbols_def applyExcludePaths_def filterToProject_def ex
      by (auto intro: filter_cong)
  qed
qed

lemma sliceTo_take: "0 \<le> limit \<Longrightarrow> sliceTo xs limit = take (nat limit) xs"
  by (simp add: sliceTo_def)

lemma handlerLimit_positive:
  assumes "validateToolArgs ''workspace_symbol_search'' args = Inr ()"
  shows "\<exists>l. handlerLimit args = JInt l \<and> 0 < l"
proof (cases "getProp args ''limit'' = JUndefined")
  case True
  then show ?thesis by (simp add: handlerLimit_def)
next
  case False
  with assms obtain l where "getProp args ''limit'' = JInt l" "0 < l"
    by (cases "getProp args ''limit''")
       (auto simp: validateToolArgs_def split: if_splits)
  then show ?thesis by (simp add: handlerLimit_def)
qed

text \<open>
  Claim C9. \<open>filtered\<close> are the symbols of the response that survive the filters: those in
  the project (all of them when \<open>includeExternal\<close> is set or the project root is empty)
  that no exclude path matches. When none is left the answer is \<open>found: false\<close> with a
  message. Otherwise it is \<open>found: true\<close>; \<open>count\<close> is the number of filtered symbols;
  \<open>truncated\<close> holds exactly when that number exceeds the limit (100 when none is given);
  when \<open>includeExternal\<close> is false every returned symbol's file path starts with the
  project root; and for a limit that is not negative the returned symbols are the first
  \<open>limit\<close> filtered ones, formatted, so at most \<open>limit\<close> of them. The limit that the
  tool-call handler passes for arguments that \<open>validateToolArgs\<close> accepts is a positive
  integer.
\<close>

theorem workspaceSymbolSearch_postconditions:
  fixes uriToPath symbolKindNames result projectRoot options args
  defines "limit \<equiv> (case opt_limit options of None \<Rightarrow> 100 | Some l \<Rightarrow> l)"
  defines "includeExternal \<equiv> (case opt_includeExternal options of None \<Rightarrow> False | Some b \<Rightarrow> b)"
  defines "excludePaths \<equiv> (case opt_excludePaths options of None \<Rightarrow> [] | Some ps \<Rightarrow> ps)"
  defines "filtered \<equiv>
     filter (\<lambda>s. (includeExternal \<or> projectRoot = []
                    \<or> prefix projectRoot (uriToPath (sym_uri s)))
                \<and> \<not> (\<exists>exc \<in> set excludePaths.
                       if prefix ''/'' exc then prefix exc (uriToPath (sym_uri s))
                       else prefix exc (drop (length projectRoot + 1) (uriToPath (sym_uri s)))
                            \<or> sublist (''/'' @ exc)
                                 (drop (length projectRoot + 1) (uriToPath (sym_uri s)))))
       (case result of None \<Rightarrow> [] | Some xs \<Rightarrow> xs)"
  defines "answer \<equiv> workspaceSymbolSearch uriToPath symbolKindNames (Inr result)
      projectRoot options"
  shows "(filtered = [] \<longrightarrow>
           answer = Inr (NotFound
             (notFoundMessage (opt_query options) projectRoot includeExternal excludePaths)))
    \<and> (filtered \<noteq> [] \<longrightarrow>
         (\<exists>payload. answer = Inr (Found payload)
            \<and> r_count payload = length filtered
            \<and> r_returned payload = length (r_symbols payload)
            \<and> (r_truncated payload \<longleftrightarrow> int (length filtered) > limit)
            \<and> (0 \<le> limit \<longrightarrow>
                 r_symbols payload
                   = map (formatSymbol uriToPath symbolKindNames) (take (nat limit) filtered)
                 \<and> int (length (r_symbols payload)) \<le> limit)
            \<and> (\<not> includeExternal \<longrightarrow>
                 (\<forall>s \<in> set (r_symbols payload). prefix projectRoot (f_file s)))))
    \<and> (validateToolArgs ''workspace_symbol_search'' args = Inr () \<longrightarrow>
         (\<exists>l. handlerLimit args = JInt l \<and> 0 < l))"
proof -
  have limit: "limitOf options = limit"
    by (simp add: limitOf_def limit_def)
  have inc: "includeExternalOf options = includeExternal"
    by (simp add: includeExternalOf_def includeExternal_def)
  have exc: "excludePathsOf options = excludePaths"
    by (simp add: excludePathsOf_def excludePaths_def)
  have filtered: "filteredSymbols uriToPath projectRoot (includeExternalOf options)
      (excludePathsOf options) (case result of None \<Rightarrow> [] | Some xs \<Rightarrow> xs) = filtered"
    unfolding inc exc filtered_def by (rule filteredSymbols_eq)
  have empty: "answer = Inr (NotFound
             (notFoundMessage (opt_query options) projectRoot includeExternal excludePaths))"
    if "filtered = []"
  proof -
    from that filtered
    have "filteredSymbols uriToPath projectRoot (includeExternalOf options)
      (excludePathsOf options) (case result of None \<Rightarrow> [] | Some xs \<Rightarrow> xs) = []"
      by simp
    from wss_empty [OF this, of symbolKindNames] show ?thesis
      unfolding answer_def inc exc .
  qed
  have found: "\<exists>payload. answer = Inr (Found payload)
            \<and> r_count payload = length filtered
            \<and> r_returned payload = length (r_symbols payload)
            \<and> (r_truncated payload \<longleftrightarrow> int (length filtered) > limit)
            \<and> (0 \<le> limit \<longrightarrow>
                 r_symbols payload
                   = map (formatSymbol uriToPath symbolKindNames) (take (nat limit) filtered)
                 \<and> int (length (r_symbols payload)) \<le> limit)
            \<and> (\<not> includeExternal \<longrightarrow>
                 (\<forall>s \<in> set (r_symbols payload). prefix projectRoot (f_file s)))"
    if ne: "filtered \<noteq> []"
  proof -
    define payload where "payload = \<lparr>r_count = length filtered,
          r_returned = length (sliceTo filtered (limitOf options)),
          r_truncated = (int (length filtered) > limitOf options),
          r_projectRoot = projectRoot,
          r_includeExternal = includeExternalOf options,
          r_excludePaths = (if excludePathsOf options \<noteq> [] then Some (excludePathsOf options) else None),
          r_symbols = map (formatSymbol uriToPath symbolKindNames)
                        (sliceTo filtered (limitOf options))\<rparr>"
    have a: "answer = Inr (Found payload)"
      unfolding answer_def payload_def
      by (rule wss_found [OF filtered ne])
    have 1: "r_count payload = length filtered" by (simp add: payload_def)
    have 2: "r_returned payload = length (r_symbols payload)" by (simp add: payload_def)
    have 3: "r_truncated payload \<longleftrightarrow> int (length filtered) > limit"
      by (simp add: payload_def limit)
    have 4: "r_symbols payload
                   = map (formatSymbol uriToPath symbolKindNames) (take (nat limit) filtered)
                 \<and> int (length (r_symbols payload)) \<le> limit"
      if "0 \<le> limit"
      using that by (simp add: payload_def limit sliceTo_take)
    have 5: "\<forall>s \<in> set (r_symbols payload). prefix projectRoot (f_file s)"
      if "\<not> includeExternal"
    proof
      fix s
      assume "s \<in> set (r_symbols payload)"
      then have "s \<in> set (map (formatSymbol uriToPath symbolKindNames)
           (sliceTo (filteredSymbols uriToPath projectRoot (includeExternalOf options)
              (excludePathsOf options) (case result of None \<Rightarrow> [] | Some xs \<Rightarrow> xs))
              (limitOf options)))"
        unfolding filtered by (simp add: payload_def)
      moreover from that have "\<not> includeExternalOf options"
        by (simp add: inc)
      ultimately show "prefix projectRoot (f_file s)"
        by (rule formatted_in_project [rotated])
    qed
    from a 1 2 3 4 5 show ?thesis by blast
  qed
  from empty found handlerLimit_positive [of args] show ?thesis
    by blast
qed

theorem workspaceSymbolSearch_postconditions_witness:
  "workspaceSymbolSearch (drop 7) (map_of [(5, ''Class'')])
          (Inr (Some
             [\<lparr>sym_name = ''A'', sym_kind = 5, sym_uri = ''file:///p/a.h'', sym_line = 1,
                sym_character = 2, sym_containerName = None\<rparr>,
              \<lparr>sym_name = ''S'', sym_kind = 5, sym_uri = ''file:///usr/s.h'', sym_line = 0,
                sym_character = 0, sym_containerName = None\<rparr>,
              \<lparr>sym_name = ''G'', sym_kind = 5, sym_uri = ''file:///p/gen/g.h'', sym_line = 0,
                sym_character = 0, sym_containerName = None\<rparr>,
              \<lparr>sym_name = ''H'', sym_kind = 5, sym_uri = ''file:///p/src/gen/h.h'', sym_line = 0,
                sym_character = 0, sym_containerName = None\<rparr>,
              \<lparr>sym_name = ''T'', sym_kind = 5, sym_uri = ''file:///p/tmp/t.h'', sym_line = 0,
                sym_character = 0, sym_containerName = None\<rparr>,
              \<lparr>sym_name = ''B'', sym_kind = 77, sym_uri = ''file:///p/b.h'', sym_line = 3,
                sym_character = 4, sym_containerName = Some ''ns''\<rparr>,
              \<lparr>sym_name = ''C'', sym_kind = 5, sym_uri = ''file:///p/c.h'', sym_line = 5,
                sym_character = 6, sym_containerName = None\<rparr>]))
          ''/p''
          \<lparr>opt_query = ''x'', opt_limit = Some 2, opt_includeExternal = None,
            opt_excludePaths = Some [''gen/'', ''/p/tmp'']\<rparr>
     = Inr (Found
         \<lparr>r_count = 3, r_returned = 2, r_truncated = True, r_projectRoot = ''/p'',
           r_includeExternal = False, r_excludePaths = Some [''gen/'', ''/p/tmp''],
           r_symbols =
             [\<lparr>f_name = ''A'', f_kind = ''Class'', f_file = ''/p/a.h'', f_line = 1, f_column = 2,
                f_container = None, f_uri = ''file:///p/a.h''\<rparr>,
              \<lparr>f_name = ''B'', f_kind = ''Unknown(77)'', f_file = ''/p/b.h'', f_line = 3,
                f_column = 4, f_container = Some ''ns'', f_uri = ''file:///p/b.h''\<rparr>]\<rparr>)
   \<and> workspaceSymbolSearch (drop 7) (map_of [(5, ''Class'')])
          (Inr (Some
             [\<lparr>sym_name = ''S'', sym_kind = 5, sym_uri = ''file:///usr/s.h'', sym_line = 0,
                sym_character = 0, sym_containerName = None\<rparr>]))
          ''/p''
          \<lparr>opt_query = ''x'', opt_limit = None, opt_includeExternal = Some False,
            opt_excludePaths = Some [''gen/'', ''tmp/'']\<rparr>
     = Inr (NotFound (''No symbols found matching '' @ [singleQuote] @ ''x'' @ [singleQuote]
         @ '' in project '' @ [singleQuote] @ ''/p'' @ [singleQuote]
         @ '' (excluding: gen/, tmp/)''))
   \<and> validateToolArgs ''workspace_symbol_search''
        (JObj [(''query'', JStr ''x''), (''limit'', JInt 2)]) = Inr ()
   \<and> handlerLimit (JObj [(''query'', JStr ''x''), (''limit'', JInt 2)]) = JInt 2
   \<and> handlerLimit (JObj [(''query'', JStr ''x'')]) = JInt 100"
proof -
  have symbols: "workspaceSymbolSearch (drop 7) (map_of [(5, ''Class'')])
          (Inr (Some
             [\<lparr>sym_name = ''A'', sym_kind = 5, sym_uri = ''file:///p/a.h'', sym_line = 1,
                sym_character = 2, sym_containerName = None\<rparr>,
              \<lparr>sym_name = ''S'', sym_kind = 5, sym_uri = ''file:///usr/s.h'', sym_line = 0,
                sym_character = 0, sym_containerName = None\<rparr>,
              \<lparr>sym_name = ''G'', sym_kind = 5, sym_uri = ''file:///p/gen/g.h'', sym_line = 0,
                sym_character = 0, sym_containerName = None\<rparr>,
              \<lparr>sym_name = ''H'', sym_kind = 5, sym_uri = ''file:///p/src/gen/h.h'', sym_line = 0,
                sym_character = 0, sym_containerName = None\<rparr>,
              \<lparr>sym_name = ''T'', sym_kind = 5, sym_uri = ''file:///p/tmp/t.h'', sym_line = 0,
                sym_character = 0, sym_containerName = None\<rparr>,
              \<lparr>sym_name = ''B'', sym_kind = 77, sym_uri = ''file:///p/b.h'', sym_line = 3,
                sym_character = 4, sym_containerName = Some ''ns''\<rparr>,
              \<lparr>sym_name = ''C'', sym_kind = 5, sym_uri = ''file:///p/c.h'', sym_line = 5,
                sym_character = 6, sym_containerName = None\<rparr>]))
          ''/p''
          \<lparr>opt_query = ''x'', opt_limit = Some 2, opt_includeExternal = None,
            opt_excludePaths = Some [''gen/'', ''/p/tmp'']\<rparr>
     = Inr (Found
         \<lparr>r_count = 3, r_returned = 2, r_truncated = True, r_projectRoot = ''/p'',
           r_includeExternal = False, r_excludePaths = Some [''gen/'', ''/p/tmp''],
           r_symbols =
             [\<lparr>f_name = ''A'', f_kind = ''Class'', f_file = ''/p/a.h'', f_line = 1, f_column = 2,
                f_container = None, f_uri = ''file:///p/a.h''\<rparr>,
              \<lparr>f_name = ''B'', f_kind = ''Unknown(77)'', f_file = ''/p/b.h'', f_line = 3,
                f_column = 4, f_container = Some ''ns'', f_uri = ''file:///p/b.h''\<rparr>]\<rparr>)"
    by code_simp
  have none: "workspaceSymbolSearch (drop 7) (map_of [(5, ''Class'')])
          (Inr (Some
             [\<lparr>sym_name = ''S'', sym_kind = 5, sym_uri = ''file:///usr/s.h'', sym_line = 0,
                sym_character = 0, sym_containerName = None\<rparr>]))
          ''/p''
          \<lparr>opt_query = ''x'', opt_limit = None, opt_includeExternal = Some False,
            opt_excludePaths = Some [''gen/'', ''tmp/'']\<rparr>
     = Inr (NotFound (''No symbols found matching '' @ [singleQuote] @ ''x'' @ [singleQuote]
         @ '' in project '' @ [singleQuote] @ ''/p'' @ [singleQuote]
         @ '' (excluding: gen/, tmp/)''))"
    by code_simp
  have valid: "validateToolArgs ''workspace_symbol_search''
        (JObj [(''query'', JStr ''x''), (''limit'', JInt 2)]) = Inr ()"
    by (simp add: validateToolArgs_def)
  have limits: "handlerLimit (JObj [(''query'', JStr ''x''), (''limit'', JInt 2)]) = JInt 2"
    "handlerLimit (JObj [(''query'', JStr ''x'')]) = JInt 100"
    by (simp_all add: handlerLimit_def)
  show ?thesis
    using symbols none valid limits workspaceSymbolSearch_postconditions
    [where uriToPath = "drop 7" and symbolKindNames = "map_of [(5, ''Class'')]"
       and result = "Some
             [\<lparr>sym_name = ''S'', sym_kind = 5, sym_uri = ''file:///usr/s.h'', sym_line = 0,
                sym_character = 0, sym_containerName = None\<rparr>]"
       and projectRoot = "''/p''"
       and options = "\<lparr>opt_query = ''x'', opt_limit = None, opt_includeExternal = Some False,
            opt_excludePaths = Some [''gen/'', ''tmp/'']\<rparr>"
       and args = "JObj [(''query'', JStr ''x''), (''limit'', JInt 2)]"]
      workspaceSymbolSearch_postconditions
    [where uriToPath = "drop 7" and symbolKindNames = "map_of [(5, ''Class'')]"
       and result = "Some
             [\<lparr>sym_name = ''A'', sym_kind = 5, sym_uri = ''file:///p/a.h'', sym_line = 1,
                sym_character = 2, sym_containerName = None\<rparr>,
              \<lparr>sym_name = ''S'', sym_kind = 5, sym_uri = ''file:///usr/s.h'', sym_line = 0,
                sym_character = 0, sym_containerName = None\<rparr>,
              \<lparr>sym_name = ''G'', sym_kind = 5, sym_uri = ''file:///p/gen/g.h'', sym_line = 0,
                sym_character = 0, sym_containerName = None\<rparr>,
              \<lparr>sym_name = ''H'', sym_kind = 5, sym_uri = ''file:///p/src/gen/h.h'', sym_line = 0,
                sym_character = 0, sym_containerName = None\<rparr>,
              \<lparr>sym_name = ''T'', sym_kind = 5, sym_uri = ''file:///p/tmp/t.h'', sym_line = 0,
                sym_character = 0, sym_containerName = None\<rparr>,
              \<lparr>sym_name = ''B'', sym_kind = 77, sym_uri = ''file:///p/b.h'', sym_line = 3,
                sym_character = 4, sym_containerName = Some ''ns''\<rparr>,
              \<lparr>sym_name = ''C'', sym_kind = 5, sym_uri = ''file:///p/c.h'', sym_line = 5,
                sym_character = 6, sym_containerName = None\<rparr>]"
       and projectRoot = "''/p''"
       and options = "\<lparr>opt_query = ''x'', opt_limit = Some 2, opt_includeExternal = None,
            opt_excludePaths = Some [''gen/'', ''/p/tmp'']\<rparr>"
       and args = "JObj [(''query'', JStr ''x'')]"]
    by simp
qed

text \<open>
  \<open>slice(0, limit)\<close> with a negative limit counts from the end of the list: of two symbols
  a limit of \<open>-1\<close> keeps the first. No such limit passes \<open>validateToolArgs\<close>.
\<close>

lemma workspaceSymbolSearch_negative_limit:
  "returnedSymbols
       (workspaceSymbolSearch (drop 7) (map_of [(5, ''Class'')])
          (Inr (Some
             [\<lparr>sym_name = ''A'', sym_kind = 5, sym_uri = ''file:///p/a.h'', sym_line = 1,
                sym_character = 2, sym_containerName = None\<rparr>,
              \<lparr>sym_name = ''B'', sym_kind = 5, sym_uri = ''file:///p/b.h'', sym_line = 3,
                sym_character = 4, sym_containerName = None\<rparr>]))
          ''/p''
          \<lparr>opt_query = ''x'', opt_limit = Some (- 1), opt_includeExternal = None,
            opt_excludePaths = None\<rparr>)
     = [\<lparr>f_name = ''A'', f_kind = ''Class'', f_file = ''/p/a.h'', f_line = 1, f_column = 2,
          f_container = None, f_uri = ''file:///p/a.h''\<rparr>]
   \<and> validateToolArgs ''workspace_symbol_search''
        (JObj [(''query'', JStr ''x''), (''limit'', JInt (- 1))])
       = Inl ''Invalid limit: must be a positive integer''"
  by code_simp

text \<open>
  Other ways the search ends: with \<open>includeExternal\<close> set and no exclude paths nothing is
  filtered, the payload has no \<open>excludePaths\<close>, and a kind whose name is missing or empty
  in the table is printed by its number; the message of an empty result then names neither
  the project nor exclusions; and when the request is rejected so is the search.
\<close>

lemma workspaceSymbolSearch_examples:
  "workspaceSymbolSearch (drop 7) (map_of [(5, ''Class''), (9, [])])
     (Inr (Some
        [\<lparr>sym_name = ''S'', sym_kind = 9, sym_uri = ''file:///usr/s.h'', sym_line = 7,
           sym_character = 8, sym_containerName = None\<rparr>]))
     ''/p''
     \<lparr>opt_query = ''x'', opt_limit = None, opt_includeExternal = Some True,
       opt_excludePaths = None\<rparr>
   = Inr (Found
       \<lparr>r_count = 1, r_returned = 1, r_truncated = False, r_projectRoot = ''/p'',
         r_includeExternal = True, r_excludePaths = None,
         r_symbols =
           [\<lparr>f_name = ''S'', f_kind = ''Unknown(9)'', f_file = ''/usr/s.h'', f_line = 7,
              f_column = 8, f_container = None, f_uri = ''file:///usr/s.h''\<rparr>]\<rparr>)"
  "workspaceSymbolSearch (drop 7) (map_of [(5, ''Class'')]) (Inr None) ''/p''
     \<lparr>opt_query = ''x'', opt_limit = Some 3, opt_includeExternal = Some True,
       opt_excludePaths = Some []\<rparr>
   = Inr (NotFound (''No symbols found matching '' @ [singleQuote] @ ''x'' @ [singleQuote]))"
  "workspaceSymbolSearch (drop 7) (map_of [(5, ''Class'')]) (Inl ''Request timed out'') ''/p''
     \<lparr>opt_query = ''x'', opt_limit = Some 3, opt_includeExternal = None,
       opt_excludePaths = None\<rparr>
   = Inl ''Request timed out''"
  "workspaceSymbolSearch (drop 7) (map_of [(5, ''Class'')])
     (Inr (Some
        [\<lparr>sym_name = ''S'', sym_kind = 5, sym_uri = ''file:///usr/s.h'', sym_line = 7,
           sym_character = 8, sym_containerName = None\<rparr>]))
     []
     \<lparr>opt_query = ''x'', opt_limit = Some 0, opt_includeExternal = None,
       opt_excludePaths = None\<rparr>
   = Inr (Found
       \<lparr>r_count = 1, r_returned = 0, r_truncated = True, r_projectRoot = [],
         r_includeExternal = False, r_excludePaths = None, r_symbols = []\<rparr>)"
  by code_simp+

section \<open>Properties of the open-document tracker\<close>

lemma sent_notify [simp]: "sent (notify n w) = sent w @ [n]"
  by (simp add: notify_def)

lemma cachedUris_notify [simp]: "cachedUris (notify n w) = cachedUris w"
  by (simp add: notify_def cachedUris_def)

lemma sent_diagnosticsHook [simp]: "sent (diagnosticsHook uri w) = sent w"
  by (simp add: diagnosticsHook_def split: option.splits)

lemma cachedUris_diagnosticsHook [simp]:
  "cachedUris (diagnosticsHook uri w) = cachedUris w - {uri}"
  by (auto simp: diagnosticsHook_def cachedUris_def clearForFile_def split: option.splits)

lemma hasOpen_keys: "hasOpen tr uri \<longleftrightarrow> uri \<in> fst ` set (openFiles tr)"
  by (simp add: hasOpen_def map_of_eq_None_iff)

lemma keys_delete: "fst ` set (AList.delete k xs) = fst ` set xs - {k}"
  by (induction xs) auto

lemma closeAll_fold:
  "sent (foldl (\<lambda>w uri. diagnosticsHook uri (notify (DidClose uri) w)) w uris)
     = sent w @ map DidClose uris
   \<and> cachedUris (foldl (\<lambda>w uri. diagnosticsHook uri (notify (DidClose uri) w)) w uris)
     = cachedUris w - set uris"
  by (induction uris arbitrary: w) auto

lemma oldestEntry_acc:
  "oldestEntry xs (ou, ot) = (ou', ot') \<Longrightarrow>
     ((ou', ot') = (ou, ot) \<and> (\<forall>j < length xs. case ot of None \<Rightarrow> False | Some t0 \<Rightarrow> t0 \<le> snd (xs ! j)))
   \<or> (\<exists>i < length xs. ou' = Some (fst (xs ! i)) \<and> ot' = Some (snd (xs ! i))
        \<and> (case ot of None \<Rightarrow> True | Some t0 \<Rightarrow> snd (xs ! i) < t0)
        \<and> (\<forall>j < length xs. snd (xs ! i) \<le> snd (xs ! j))
        \<and> (\<forall>j < i. snd (xs ! i) < snd (xs ! j)))"
proof (induction xs arbitrary: ou ot)
  case Nil
  then show ?case by simp
next
  case (Cons x xs)
  obtain uri time where x: "x = (uri, time)" by (cases x)
  show ?case
  proof (cases "case ot of None \<Rightarrow> True | Some t \<Rightarrow> time < t")
    case True
    with Cons.prems x have "oldestEntry xs (Some uri, Some time) = (ou', ot')"
      by simp
    from Cons.IH [OF this] show ?thesis
    proof
      assume a: "(ou', ot') = (Some uri, Some time) \<and>
        (\<forall>j<length xs. case Some time of None \<Rightarrow> False | Some t0 \<Rightarrow> t0 \<le> snd (xs ! j))"
      have "\<forall>j < length (x # xs). snd ((x # xs) ! 0) \<le> snd ((x # xs) ! j)"
        using a x by (auto simp: nth_Cons split: nat.splits)
      with a x True show ?thesis
        by (intro disjI2 exI [of _ 0]) (auto split: option.splits)
    next
      assume "\<exists>i<length xs. ou' = Some (fst (xs ! i)) \<and> ot' = Some (snd (xs ! i)) \<and>
        (case Some time of None \<Rightarrow> True | Some t0 \<Rightarrow> snd (xs ! i) < t0) \<and>
        (\<forall>j<length xs. snd (xs ! i) \<le> snd (xs ! j)) \<and> (\<forall>j<i. snd (xs ! i) < snd (xs ! j))"
      then obtain i where i: "i < length xs" "ou' = Some (fst (xs ! i))" "ot' = Some (snd (xs ! i))"
        "snd (xs ! i) < time" "\<forall>j<length xs. snd (xs ! i) \<le> snd (xs ! j)"
        "\<forall>j<i. snd (xs ! i) < snd (xs ! j)"
        by auto
      have 1: "\<forall>j < length (x # xs). snd ((x # xs) ! Suc i) \<le> snd ((x # xs) ! j)"
        using i x by (auto simp: nth_Cons split: nat.splits)
      have 2: "\<forall>j < Suc i. snd ((x # xs) ! Suc i) < snd ((x # xs) ! j)"
        using i x by (auto simp: nth_Cons split: nat.splits)
      have 3: "case ot of None \<Rightarrow> True | Some t0 \<Rightarrow> snd ((x # xs) ! Suc i) < t0"
        using True i(4) by (auto split: option.splits)
      from i(1,2,3) 1 2 3 show ?thesis
        by (intro disjI2 exI [of _ "Suc i"]) simp
    qed
  next
    case False
    with Cons.prems x have "oldestEntry xs (ou, ot) = (ou', ot')"
      by simp
    from Cons.IH [OF this] show ?thesis
    proof
      assume a: "(ou', ot') = (ou, ot) \<and>
        (\<forall>j<length xs. case ot of None \<Rightarrow> False | Some t0 \<Rightarrow> t0 \<le> snd (xs ! j))"
      with False x have "\<forall>j<length (x # xs). case ot of None \<Rightarrow> False | Some t0 \<Rightarrow> t0 \<le> snd ((x # xs) ! j)"
        by (auto simp: nth_Cons split: nat.splits option.splits)
      with a show ?thesis by blast
    next
      assume "\<exists>i<length xs. ou' = Some (fst (xs ! i)) \<and> ot' = Some (snd (xs ! i)) \<and>
        (case ot of None \<Rightarrow> True | Some t0 \<Rightarrow> snd (xs ! i) < t0) \<and>
        (\<forall>j<length xs. snd (xs ! i) \<le> snd (xs ! j)) \<and> (\<forall>j<i. snd (xs ! i) < snd (xs ! j))"
      then obtain i where i: "i < length xs" "ou' = Some (fst (xs ! i))" "ot' = Some (snd (xs ! i))"
        "case ot of None \<Rightarrow> True | Some t0 \<Rightarrow> snd (xs ! i) < t0"
        "\<forall>j<length xs. snd (xs ! i) \<le> snd (xs ! j)"
        "\<forall>j<i. snd (xs ! i) < snd (xs ! j)"
        by auto
      from False i(4) x have lt: "snd (xs ! i) < time"
        by (auto split: option.splits)
      have 1: "\<forall>j < length (x # xs). snd ((x # xs) ! Suc i) \<le> snd ((x # xs) ! j)"
        using i x lt by (auto simp: nth_Cons split: nat.splits)
      have 2: "\<forall>j < Suc i. snd ((x # xs) ! Suc i) < snd ((x # xs) ! j)"
        using i x lt by (auto simp: nth_Cons split: nat.splits)
      from i(1,2,3,4) 1 2 show ?thesis
        by (intro disjI2 exI [of _ "Suc i"]) (simp split: option.splits)
    qed
  qed
qed

text \<open>The loop of \<open>evictLRU\<close> ends on the first entry among those with the least time.\<close>

lemma oldestEntry_first_least:
  assumes "xs \<noteq> []"
  shows "\<exists>i < length xs. oldestEntry xs (None, None) = (Some (fst (xs ! i)), Some (snd (xs ! i)))
        \<and> (\<forall>j < length xs. snd (xs ! i) \<le> snd (xs ! j))
        \<and> (\<forall>j < i. snd (xs ! i) < snd (xs ! j))"
proof -
  obtain ou' ot' where r: "oldestEntry xs (None, None) = (ou', ot')"
    by (cases "oldestEntry xs (None, None)")
  from oldestEntry_acc [OF r] assms show ?thesis
    unfolding r by auto
qed

lemma evictLRU_effect:
  assumes "openFiles tr \<noteq> []" and "[] \<notin> fst ` set (openFiles tr)"
  shows "\<exists>i < length (openFiles tr).
      (\<forall>j < length (openFiles tr). snd (openFiles tr ! i) \<le> snd (openFiles tr ! j))
      \<and> (\<forall>j < i. snd (openFiles tr ! i) < snd (openFiles tr ! j))
      \<and> evictLRU (tr, w) =
          (tr\<lparr>openFiles := AList.delete (fst (openFiles tr ! i)) (openFiles tr)\<rparr>,
           runCallback tr (fst (openFiles tr ! i)) (notify (DidClose (fst (openFiles tr ! i))) w))"
proof -
  from oldestEntry_first_least [OF assms(1)] obtain i where i: "i < length (openFiles tr)"
    "oldestEntry (openFiles tr) (None, None)
       = (Some (fst (openFiles tr ! i)), Some (snd (openFiles tr ! i)))"
    "\<forall>j < length (openFiles tr). snd (openFiles tr ! i) \<le> snd (openFiles tr ! j)"
    "\<forall>j < i. snd (openFiles tr ! i) < snd (openFiles tr ! j)"
    by blast
  from i(1) assms(2) have "fst (openFiles tr ! i) \<noteq> []"
    by (metis image_eqI nth_mem)
  then have "evictLRU (tr, w) =
          (tr\<lparr>openFiles := AList.delete (fst (openFiles tr ! i)) (openFiles tr)\<rparr>,
           runCallback tr (fst (openFiles tr ! i)) (notify (DidClose (fst (openFiles tr ! i))) w))"
    by (simp add: evictLRU_def i(2) Let_def runCallback_def)
  with i(1,3,4) show ?thesis by blast
qed

text \<open>
  Claim C3. With the hook of index.ts registered, each way of closing sends the close
  notification, removes the tracker entry and leaves no diagnostics entry for the file.
  \<open>closeFile\<close> of an open file sends one \<open>didClose\<close> for its URI and deletes the entry
  and the cache entry; \<open>closeAll\<close> sends a \<open>didClose\<close> for every open URI in map order,
  empties the map and leaves no cache entry for any of them; \<open>evictLRU\<close> on a map that is
  not empty (its keys being URIs, so not empty strings) does to the first entry with the
  least access time what \<open>closeFile\<close> does. If before the operation every diagnostics
  entry belonged to an open file, the same holds after it.
\<close>

theorem close_clears_diagnostics:
  assumes "onFileClosedCallback tr = Some diagnosticsHook"
  shows "(hasOpen tr (normalizeToUri filePath) \<longrightarrow>
           sent (snd (closeFile normalizeToUri filePath (tr, w)))
             = sent w @ [DidClose (normalizeToUri filePath)]
           \<and> openFiles (fst (closeFile normalizeToUri filePath (tr, w)))
             = AList.delete (normalizeToUri filePath) (openFiles tr)
           \<and> \<not> hasOpen (fst (closeFile normalizeToUri filePath (tr, w))) (normalizeToUri filePath)
           \<and> normalizeToUri filePath \<notin> cachedUris (snd (closeFile normalizeToUri filePath (tr, w)))
           \<and> (cachedUris w \<subseteq> fst ` set (openFiles tr) \<longrightarrow>
                cachedUris (snd (closeFile normalizeToUri filePath (tr, w)))
                  \<subseteq> fst ` set (openFiles (fst (closeFile normalizeToUri filePath (tr, w))))))
    \<and> (sent (snd (closeAll (tr, w))) = sent w @ map DidClose (map fst (openFiles tr))
         \<and> openFiles (fst (closeAll (tr, w))) = []
         \<and> cachedUris (snd (closeAll (tr, w))) \<inter> fst ` set (openFiles tr) = {}
         \<and> (cachedUris w \<subseteq> fst ` set (openFiles tr) \<longrightarrow> cachedUris (snd (closeAll (tr, w))) = {}))
    \<and> (openFiles tr \<noteq> [] \<and> [] \<notin> fst ` set (openFiles tr) \<longrightarrow>
         (\<exists>i < length (openFiles tr).
            (\<forall>j < length (openFiles tr). snd (openFiles tr ! i) \<le> snd (openFiles tr ! j))
            \<and> (\<forall>j < i. snd (openFiles tr ! i) < snd (openFiles tr ! j))
            \<and> sent (snd (evictLRU (tr, w))) = sent w @ [DidClose (fst (openFiles tr ! i))]
            \<and> openFiles (fst (evictLRU (tr, w))) = AList.delete (fst (openFiles tr ! i)) (openFiles tr)
            \<and> \<not> hasOpen (fst (evictLRU (tr, w))) (fst (openFiles tr ! i))
            \<and> fst (openFiles tr ! i) \<notin> cachedUris (snd (evictLRU (tr, w)))
            \<and> (cachedUris w \<subseteq> fst ` set (openFiles tr) \<longrightarrow>
                 cachedUris (snd (evictLRU (tr, w)))
                   \<subseteq> fst ` set (openFiles (fst (evictLRU (tr, w)))))))"
proof (intro conjI impI)
  assume open_: "hasOpen tr (normalizeToUri filePath)"
  let ?uri = "normalizeToUri filePath"
  have c: "closeFile normalizeToUri filePath (tr, w)
      = (tr\<lparr>openFiles := AList.delete ?uri (openFiles tr)\<rparr>,
         diagnosticsHook ?uri (notify (DidClose ?uri) w))"
    using open_ assms by (simp add: closeFile_def Let_def runCallback_def)
  show "sent (snd (closeFile normalizeToUri filePath (tr, w))) = sent w @ [DidClose ?uri]"
    by (simp add: c)
  show "openFiles (fst (closeFile normalizeToUri filePath (tr, w))) = AList.delete ?uri (openFiles tr)"
    by (simp add: c)
  show "\<not> hasOpen (fst (closeFile normalizeToUri filePath (tr, w))) ?uri"
    by (simp add: c hasOpen_keys keys_delete)
  show "?uri \<notin> cachedUris (snd (closeFile normalizeToUri filePath (tr, w)))"
    by (simp add: c)
  show "cachedUris (snd (closeFile normalizeToUri filePath (tr, w)))
      \<subseteq> fst ` set (openFiles (fst (closeFile normalizeToUri filePath (tr, w))))"
    if "cachedUris w \<subseteq> fst ` set (openFiles tr)"
    using that by (auto simp: c keys_delete)
next
  have a: "closeAll (tr, w) = (tr\<lparr>openFiles := []\<rparr>,
      foldl (\<lambda>w uri. diagnosticsHook uri (notify (DidClose uri) w)) w (map fst (openFiles tr)))"
    using assms by (simp add: closeAll_def runCallback_def)
  note f = closeAll_fold [of w "map fst (openFiles tr)"]
  show "sent (snd (closeAll (tr, w))) = sent w @ map DidClose (map fst (openFiles tr))"
    using f by (simp add: a)
  show "openFiles (fst (closeAll (tr, w))) = []"
    by (simp add: a)
  show "cachedUris (snd (closeAll (tr, w))) \<inter> fst ` set (openFiles tr) = {}"
    using f by (auto simp: a)
  show "cachedUris (snd (closeAll (tr, w))) = {}" if "cachedUris w \<subseteq> fst ` set (openFiles tr)"
    using f that by (auto simp: a)
next
  assume "openFiles tr \<noteq> [] \<and> [] \<notin> fst ` set (openFiles tr)"
  then obtain i where i: "i < length (openFiles tr)"
    "\<forall>j < length (openFiles tr). snd (openFiles tr ! i) \<le> snd (openFiles tr ! j)"
    "\<forall>j < i. snd (openFiles tr ! i) < snd (openFiles tr ! j)"
    and e: "evictLRU (tr, w) =
          (tr\<lparr>openFiles := AList.delete (fst (openFiles tr ! i)) (openFiles tr)\<rparr>,
           runCallback tr (fst (openFiles tr ! i)) (notify (DidClose (fst (openFiles tr ! i))) w))"
    using evictLRU_effect [of tr w] by blast
  let ?uri = "fst (openFiles tr ! i)"
  have e': "evictLRU (tr, w) =
          (tr\<lparr>openFiles := AList.delete ?uri (openFiles tr)\<rparr>,
           diagnosticsHook ?uri (notify (DidClose ?uri) w))"
    using e assms by (simp add: runCallback_def)
  have 1: "sent (snd (evictLRU (tr, w))) = sent w @ [DidClose ?uri]"
    by (simp add: e')
  have 2: "openFiles (fst (evictLRU (tr, w))) = AList.delete ?uri (openFiles tr)"
    by (simp add: e')
  have 3: "\<not> hasOpen (fst (evictLRU (tr, w))) ?uri"
    by (simp add: e' hasOpen_keys keys_delete)
  have 4: "?uri \<notin> cachedUris (snd (evictLRU (tr, w)))"
    by (simp add: e')
  have 5: "cachedUris w \<subseteq> fst ` set (openFiles tr) \<longrightarrow>
                 cachedUris (snd (evictLRU (tr, w)))
                   \<subseteq> fst ` set (openFiles (fst (evictLRU (tr, w))))"
    by (auto simp: e' keys_delete)
  from i 1 2 3 4 5
  show "\<exists>i < length (openFiles tr).
            (\<forall>j < length (openFiles tr). snd (openFiles tr ! i) \<le> snd (openFiles tr ! j))
            \<and> (\<forall>j < i. snd (openFiles tr ! i) < snd (openFiles tr ! j))
            \<and> sent (snd (evictLRU (tr, w))) = sent w @ [DidClose (fst (openFiles tr ! i))]
            \<and> openFiles (fst (evictLRU (tr, w))) = AList.delete (fst (openFiles tr ! i)) (openFiles tr)
            \<and> \<not> hasOpen (fst (evictLRU (tr, w))) (fst (openFiles tr ! i))
            \<and> fst (openFiles tr ! i) \<notin> cachedUris (snd (evictLRU (tr, w)))
            \<and> (cachedUris w \<subseteq> fst ` set (openFiles tr) \<longrightarrow>
                 cachedUris (snd (evictLRU (tr, w)))
                   \<subseteq> fst ` set (openFiles (fst (evictLRU (tr, w)))))"
    by blast
qed

theorem close_clears_diagnostics_witness:
  "hasOpen \<lparr>openFiles = [(''file:///a.cpp'', 5), (''file:///b.cpp'', 3), (''file:///c.cpp'', 3)],
       inFlightOpens = {}, maxOpenFiles = 100, onFileClosedCallback = Some diagnosticsHook\<rparr> ''file:///a.cpp''
   \<and> closeFile ((@) ''file://'') ''/a.cpp''
     (\<lparr>openFiles = [(''file:///a.cpp'', 5), (''file:///b.cpp'', 3), (''file:///c.cpp'', 3)],
       inFlightOpens = {}, maxOpenFiles = 100, onFileClosedCallback = Some diagnosticsHook\<rparr>,
      \<lparr>sent = [], diagnosticsCache =
         Some [''file:///a.cpp'' \<mapsto> [''unused variable''], ''file:///b.cpp'' \<mapsto> []]\<rparr>)
     = (\<lparr>openFiles = [(''file:///b.cpp'', 3), (''file:///c.cpp'', 3)],
         inFlightOpens = {}, maxOpenFiles = 100, onFileClosedCallback = Some diagnosticsHook\<rparr>,
        \<lparr>sent = [DidClose ''file:///a.cpp''],
         diagnosticsCache = Some [''file:///b.cpp'' \<mapsto> []]\<rparr>)
   \<and> evictLRU
     (\<lparr>openFiles = [(''file:///a.cpp'', 5), (''file:///b.cpp'', 3), (''file:///c.cpp'', 3)],
       inFlightOpens = {}, maxOpenFiles = 100, onFileClosedCallback = Some diagnosticsHook\<rparr>,
      \<lparr>sent = [], diagnosticsCache =
         Some [''file:///a.cpp'' \<mapsto> [''unused variable''], ''file:///b.cpp'' \<mapsto> []]\<rparr>)
     = (\<lparr>openFiles = [(''file:///a.cpp'', 5), (''file:///c.cpp'', 3)],
         inFlightOpens = {}, maxOpenFiles = 100, onFileClosedCallback = Some diagnosticsHook\<rparr>,
        \<lparr>sent = [DidClose ''file:///b.cpp''],
         diagnosticsCache = Some [''file:///a.cpp'' \<mapsto> [''unused variable'']]\<rparr>)
   \<and> closeAll
     (\<lparr>openFiles = [(''file:///a.cpp'', 5), (''file:///b.cpp'', 3), (''file:///c.cpp'', 3)],
       inFlightOpens = {}, maxOpenFiles = 100, onFileClosedCallback = Some diagnosticsHook\<rparr>,
      \<lparr>sent = [], diagnosticsCache =
         Some [''file:///a.cpp'' \<mapsto> [''unused variable''], ''file:///b.cpp'' \<mapsto> []]\<rparr>)
     = (\<lparr>openFiles = [],
         inFlightOpens = {}, maxOpenFiles = 100, onFileClosedCallback = Some diagnosticsHook\<rparr>,
        \<lparr>sent = [DidClose ''file:///a.cpp'', DidClose ''file:///b.cpp'', DidClose ''file:///c.cpp''],
         diagnosticsCache = Some Map.empty\<rparr>)"
  using close_clears_diagnostics
    [where tr = "\<lparr>openFiles = [(''file:///a.cpp'', 5), (''file:///b.cpp'', 3), (''file:///c.cpp'', 3)],
       inFlightOpens = {}, maxOpenFiles = 100, onFileClosedCallback = Some diagnosticsHook\<rparr>"
       and w = "\<lparr>sent = [], diagnosticsCache =
         Some [''file:///a.cpp'' \<mapsto> [''unused variable''], ''file:///b.cpp'' \<mapsto> []]\<rparr>"
       and normalizeToUri = "(@) ''file://''" and filePath = "''/a.cpp''"]
  by (auto simp: hasOpen_def closeFile_def evictLRU_def closeAll_def runCallback_def notify_def
      diagnosticsHook_def clearForFile_def AList.delete_eq fun_upd_twist)

subsection \<open>The maximum of open files\<close>

lemma delete_absent: "k \<notin> fst ` set xs \<Longrightarrow> AList.delete k xs = xs"
  by (induction xs) auto

lemma length_delete_key:
  "distinct (map fst xs) \<Longrightarrow> k \<in> fst ` set xs \<Longrightarrow> Suc (length (AList.delete k xs)) = length xs"
proof (induction xs)
  case Nil
  then show ?case by simp
next
  case (Cons x xs)
  show ?case
  proof (cases "fst x = k")
    case True
    with Cons.prems(1) have "k \<notin> fst ` set xs" by auto
    with True show ?thesis by (simp add: delete_absent)
  next
    case False
    with Cons show ?thesis by auto
  qed
qed

lemma length_update_key:
  "length (AList.update k v xs) = (if k \<in> fst ` set xs then length xs else Suc (length xs))"
  by (induction xs) auto

lemma keys_update: "fst ` set (AList.update k v xs) = insert k (fst ` set xs)"
  by (induction xs) auto

lemma distinct_delete_keys: "distinct (map fst xs) \<Longrightarrow> distinct (map fst (AList.delete k xs))"
  by (induction xs) (auto simp: keys_delete)

lemma distinct_update_keys: "distinct (map fst xs) \<Longrightarrow> distinct (map fst (AList.update k v xs))"
  by (induction xs) (auto simp: keys_update)

text \<open>An eviction from a map that is not empty leaves one entry less.\<close>

lemma evictLRU_shrinks:
  assumes "openFiles tr \<noteq> []" and "[] \<notin> fst ` set (openFiles tr)"
    and "distinct (map fst (openFiles tr))"
  shows "Suc (length (openFiles (fst (evictLRU (tr, w))))) = length (openFiles tr)
    \<and> fst ` set (openFiles (fst (evictLRU (tr, w)))) \<subseteq> fst ` set (openFiles tr)
    \<and> distinct (map fst (openFiles (fst (evictLRU (tr, w)))))
    \<and> inFlightOpens (fst (evictLRU (tr, w))) = inFlightOpens tr
    \<and> maxOpenFiles (fst (evictLRU (tr, w))) = maxOpenFiles tr
    \<and> onFileClosedCallback (fst (evictLRU (tr, w))) = onFileClosedCallback tr"
proof -
  from evictLRU_effect [OF assms(1,2), of w] obtain i where i: "i < length (openFiles tr)"
    and e: "evictLRU (tr, w) =
          (tr\<lparr>openFiles := AList.delete (fst (openFiles tr ! i)) (openFiles tr)\<rparr>,
           runCallback tr (fst (openFiles tr ! i)) (notify (DidClose (fst (openFiles tr ! i))) w))"
    by blast
  from i have "fst (openFiles tr ! i) \<in> fst ` set (openFiles tr)"
    by (metis image_eqI nth_mem)
  with assms(3) show ?thesis
    by (auto simp: e length_delete_key keys_delete distinct_delete_keys)
qed

lemma stepCall_Called:
  "stepCall normalizeToUri uriToPath now content (Called filePath) (tr, w) =
     (if hasOpen tr (normalizeToUri filePath) then
        (Returned (normalizeToUri filePath), touch (normalizeToUri filePath) now tr, w)
      else if normalizeToUri filePath \<in> inFlightOpens tr then
        (Waiting (normalizeToUri filePath), tr, w)
      else (Reading (normalizeToUri filePath), beginOpen (normalizeToUri filePath) (tr, w)))"
  by (simp add: stepCall_def Let_def)

lemma stepCall_Waiting:
  "stepCall normalizeToUri uriToPath now content (Waiting uri) (tr, w) =
     (if uri \<in> inFlightOpens tr then (Waiting uri, tr, w)
      else if hasOpen tr uri then (Returned uri, touch uri now tr, w)
      else (Reading uri, beginOpen uri (tr, w)))"
  by (simp add: stepCall_def)

lemma stepCall_Reading:
  "stepCall normalizeToUri uriToPath now content (Reading uri) (tr, w) =
     (case content of
        Some fileText \<Rightarrow>
          (Opened uri, touch uri now tr,
           notify (DidOpen uri (getLanguageId (uriToPath uri)) fileText) w)
      | None \<Rightarrow> (OpenFailed uri, tr, w))"
  by (simp add: stepCall_def)

lemma stepCall_finally:
  "stepCall normalizeToUri uriToPath now content (Opened uri) (tr, w)
     = (Returned uri, tr\<lparr>inFlightOpens := inFlightOpens tr - {uri}\<rparr>, w)"
  "stepCall normalizeToUri uriToPath now content (OpenFailed uri) (tr, w)
     = (Rejected uri, tr\<lparr>inFlightOpens := inFlightOpens tr - {uri}\<rparr>, w)"
  by (simp_all add: stepCall_def)

lemma stepCall_ended:
  "stepCall normalizeToUri uriToPath now content (Returned uri) (tr, w) = (Returned uri, tr, w)"
  "stepCall normalizeToUri uriToPath now content (Rejected uri) (tr, w) = (Rejected uri, tr, w)"
  by (simp_all add: stepCall_def)

lemmas stepCall_simps = stepCall_Called stepCall_Waiting stepCall_Reading stepCall_finally
  stepCall_ended

lemma beginOpen_room:
  assumes "length (openFiles tr) \<le> maxOpenFiles tr" and "0 < maxOpenFiles tr"
    and "distinct (map fst (openFiles tr))" and "[] \<notin> fst ` set (openFiles tr)"
  shows "length (openFiles (fst (beginOpen uri (tr, w)))) < maxOpenFiles tr
    \<and> fst ` set (openFiles (fst (beginOpen uri (tr, w)))) \<subseteq> fst ` set (openFiles tr)
    \<and> distinct (map fst (openFiles (fst (beginOpen uri (tr, w)))))
    \<and> inFlightOpens (fst (beginOpen uri (tr, w))) = insert uri (inFlightOpens tr)
    \<and> maxOpenFiles (fst (beginOpen uri (tr, w))) = maxOpenFiles tr"
proof (cases "length (openFiles tr) \<ge> maxOpenFiles tr")
  case True
  let ?tr1 = "tr\<lparr>inFlightOpens := insert uri (inFlightOpens tr)\<rparr>"
  from True assms(2) have ne: "openFiles ?tr1 \<noteq> []" by auto
  have b: "beginOpen uri (tr, w) = evictLRU (?tr1, w)"
    using True by (simp add: beginOpen_def Let_def)
  from evictLRU_shrinks [OF ne, of w] assms True show ?thesis
    unfolding b by auto
next
  case False
  then show ?thesis
    using assms by (simp add: beginOpen_def Let_def)
qed

lemma sequential_opens_within_maximum:
  assumes "settled st" and "normalizeToUri filePath \<noteq> []"
  shows "settled (snd (ensureFileOpenAlone normalizeToUri uriToPath now content filePath st))"
proof -
  obtain tr w where st: "st = (tr, w)" by (cases st)
  let ?uri = "normalizeToUri filePath"
  from assms(1) st have inv: "length (openFiles tr) \<le> maxOpenFiles tr" "0 < maxOpenFiles tr"
    "inFlightOpens tr = {}" "distinct (map fst (openFiles tr))" "[] \<notin> fst ` set (openFiles tr)"
    by (simp_all add: settled_def)
  show ?thesis
  proof (cases "hasOpen tr ?uri")
    case True
    then have "ensureFileOpenAlone normalizeToUri uriToPath now content filePath st
        = (Returned ?uri, touch ?uri now tr, w)"
      by (simp add: ensureFileOpenAlone_def stepCall_simps st)
    moreover have "settled (touch ?uri now tr, w)"
      using inv True assms(2)
      by (auto simp: settled_def touch_def hasOpen_keys length_update_key keys_update
          distinct_update_keys)
    ultimately show ?thesis by simp
  next
    case False
    obtain tr1 w1 where b: "beginOpen ?uri (tr, w) = (tr1, w1)"
      by (cases "beginOpen ?uri (tr, w)")
    from beginOpen_room [OF inv(1,2,4,5), of ?uri w] b inv(3)
    have r: "length (openFiles tr1) < maxOpenFiles tr" "fst ` set (openFiles tr1) \<subseteq> fst ` set (openFiles tr)"
      "distinct (map fst (openFiles tr1))" "inFlightOpens tr1 = {?uri}" "maxOpenFiles tr1 = maxOpenFiles tr"
      by simp_all
    have first: "stepCall normalizeToUri uriToPath now None (Called filePath) st = (Reading ?uri, tr1, w1)"
      using False inv(3) b by (simp add: stepCall_simps st)
    show ?thesis
    proof (cases content)
      case None
      then have "ensureFileOpenAlone normalizeToUri uriToPath now content filePath st
          = (Rejected ?uri, tr1\<lparr>inFlightOpens := inFlightOpens tr1 - {?uri}\<rparr>, w1)"
        by (simp add: ensureFileOpenAlone_def first stepCall_simps)
      moreover have "settled (tr1\<lparr>inFlightOpens := inFlightOpens tr1 - {?uri}\<rparr>, w1)"
        using r inv by (auto simp: settled_def)
      ultimately show ?thesis by simp
    next
      case (Some fileText)
      let ?tr2 = "touch ?uri now tr1"
      let ?w2 = "notify (DidOpen ?uri (getLanguageId (uriToPath ?uri)) fileText) w1"
      have "ensureFileOpenAlone normalizeToUri uriToPath now content filePath st
          = (Returned ?uri, ?tr2\<lparr>inFlightOpens := inFlightOpens ?tr2 - {?uri}\<rparr>, ?w2)"
        by (simp add: ensureFileOpenAlone_def first stepCall_simps Some)
      moreover have "settled (?tr2\<lparr>inFlightOpens := inFlightOpens ?tr2 - {?uri}\<rparr>, ?w2)"
        using r inv assms(2)
        by (auto simp: settled_def touch_def length_update_key keys_update distinct_update_keys)
      ultimately show ?thesis by simp
    qed
  qed
qed

text \<open>
  Calls that do not overlap keep the map within the maximum, whatever the files and
  whether their reads succeed: this is the claim for calls made one after the other.
\<close>

lemma sequential_calls_within_maximum:
  assumes "\<forall>filePath. normalizeToUri filePath \<noteq> []"
  shows "settled (foldl (\<lambda>st (now, content, filePath).
             snd (ensureFileOpenAlone normalizeToUri uriToPath now content filePath st))
           (newFileTracker, w) requests)"
proof -
  have "settled st \<Longrightarrow> settled (foldl (\<lambda>st (now, content, filePath).
             snd (ensureFileOpenAlone normalizeToUri uriToPath now content filePath st))
           st requests)" for st
  proof (induction requests arbitrary: st)
    case Nil
    then show ?case by simp
  next
    case (Cons r requests)
    obtain now content filePath where r: "r = (now, content, filePath)" by (cases r)
    from sequential_opens_within_maximum [OF Cons.prems, of normalizeToUri filePath uriToPath now content]
      assms
    have "settled (snd (ensureFileOpenAlone normalizeToUri uriToPath now content filePath st))"
      by simp
    from Cons.IH [OF this] show ?case by (simp add: r)
  qed
  moreover have "settled (newFileTracker, w)"
    by (simp add: settled_def newFileTracker_def)
  ultimately show ?thesis by blast
qed

subsection \<open>Concurrent calls\<close>

lemma count_list_update:
  "i < length xs \<Longrightarrow>
   count_list (xs[i := y]) a + (if xs ! i = a then 1 else 0)
     = count_list xs a + (if y = a then 1 else 0)"
proof (induction xs arbitrary: i)
  case Nil
  then show ?case by simp
next
  case (Cons x xs)
  show ?case
  proof (cases i)
    case 0
    then show ?thesis by simp
  next
    case (Suc j)
    with Cons.prems have "j < length xs" by simp
    from Cons.IH [OF this] Suc show ?thesis by (auto split: if_splits)
  qed
qed

lemma count_list_pos_nth: "i < length xs \<Longrightarrow> 0 < count_list xs (xs ! i)"
  by (metis count_list_0_iff gr0I nth_mem)

lemma didOpenCount_append [simp]:
  "didOpenCount uri (ns @ ms) = didOpenCount uri ns + didOpenCount uri ms"
  by (simp add: didOpenCount_def)

lemma didOpenCount_single [simp]:
  "didOpenCount uri [DidClose u] = 0"
  "didOpenCount uri [DidOpen u languageId fileText] = (if u = uri then 1 else 0)"
  by (simp_all add: didOpenCount_def)

lemma hasOpen_touch [simp]: "hasOpen (touch u now tr) uri \<longleftrightarrow> u = uri \<or> hasOpen tr uri"
  by (auto simp: hasOpen_keys touch_def keys_update)

lemma touch_fields [simp]:
  "inFlightOpens (touch u now tr) = inFlightOpens tr"
  "onFileClosedCallback (touch u now tr) = onFileClosedCallback tr"
  "maxOpenFiles (touch u now tr) = maxOpenFiles tr"
  by (simp_all add: touch_def)

lemma filter_update_length:
  "i < length xs \<Longrightarrow>
   length (filter P (xs[i := y])) + (if P (xs ! i) then 1 else 0)
     = length (filter P xs) + (if P y then 1 else 0)"
proof (induction xs arbitrary: i)
  case Nil
  then show ?case by simp
next
  case (Cons x xs)
  show ?case
  proof (cases i)
    case 0
    then show ?thesis by simp
  next
    case (Suc j)
    with Cons.prems have "j < length xs" by simp
    from Cons.IH [OF this] Suc show ?thesis by (auto split: if_splits)
  qed
qed

lemma filter_length_pos: "i < length xs \<Longrightarrow> P (xs ! i) \<Longrightarrow> 0 < length (filter P xs)"
  by (metis filter_empty_conv length_greater_0_conv nth_mem)

lemma filter_length_two:
  assumes "i < length xs" and "j < length xs" and "i \<noteq> j" and "P (xs ! i)" and "P (xs ! j)"
    and "\<not> P y"
  shows "2 \<le> length (filter P xs)"
proof -
  from assms(2,3,5) have "P (xs[i := y] ! j)" "j < length (xs[i := y])"
    by simp_all
  then have "0 < length (filter P (xs[i := y]))"
    using filter_length_pos by blast
  moreover from filter_update_length [OF assms(1), of P y] assms(4,6)
  have "length (filter P (xs[i := y])) + 1 = length (filter P xs)"
    by simp
  ultimately show ?thesis
    by linarith
qed

lemma evictLRU_cases:
  "evictLRU (tr, w) = (tr, w)
   \<or> (\<exists>old. evictLRU (tr, w) =
         (tr\<lparr>openFiles := AList.delete old (openFiles tr)\<rparr>,
          runCallback tr old (notify (DidClose old) w)))"
  by (cases "fst (oldestEntry (openFiles tr) (None, None))")
     (auto simp: evictLRU_def Let_def runCallback_def)

lemma beginOpen_cases:
  "beginOpen u (tr, w) = (tr\<lparr>inFlightOpens := insert u (inFlightOpens tr)\<rparr>, w)
   \<or> (\<exists>old. beginOpen u (tr, w) =
         (tr\<lparr>inFlightOpens := insert u (inFlightOpens tr),
             openFiles := AList.delete old (openFiles tr)\<rparr>,
          runCallback tr old (notify (DidClose old) w)))"
proof -
  let ?tr1 = "tr\<lparr>inFlightOpens := insert u (inFlightOpens tr)\<rparr>"
  from evictLRU_cases [of ?tr1 w] show ?thesis
    by (auto simp: beginOpen_def Let_def runCallback_def)
qed

lemma beginOpen_marks:
  "inFlightOpens (fst (beginOpen u (tr, w))) = insert u (inFlightOpens tr)
   \<and> onFileClosedCallback (fst (beginOpen u (tr, w))) = onFileClosedCallback tr
   \<and> maxOpenFiles (fst (beginOpen u (tr, w))) = maxOpenFiles tr"
  using beginOpen_cases [of u tr w] by auto

lemma advance_eq:
  "i < length cs \<Longrightarrow>
   advance normalizeToUri uriToPath (i, now, content) (cs, tr, w)
     = (cs[i := fst (stepCall normalizeToUri uriToPath now content (cs ! i) (tr, w))],
        snd (stepCall normalizeToUri uriToPath now content (cs ! i) (tr, w)))"
  by (simp add: advance_def case_prod_beta)

lemma advance_out_of_range:
  "\<not> i < length cs \<Longrightarrow>
   advance normalizeToUri uriToPath (i, now, content) (cs, tr, w) = (cs, tr, w)"
  by (simp add: advance_def)

lemma run_Cons:
  "run normalizeToUri uriToPath (tick # ticks) sys
     = run normalizeToUri uriToPath ticks (advance normalizeToUri uriToPath tick sys)"
  by (simp add: run_def)

lemma run_append:
  "run normalizeToUri uriToPath (ticks @ ticks') sys
     = run normalizeToUri uriToPath ticks' (run normalizeToUri uriToPath ticks sys)"
  by (simp add: run_def)

lemma length_advance [simp]:
  "length (fst (advance normalizeToUri uriToPath tick sys)) = length (fst sys)"
  by (cases tick; cases sys) (auto simp: advance_def split: prod.splits)

lemma length_run [simp]:
  "length (fst (run normalizeToUri uriToPath ticks sys)) = length (fst sys)"
  by (induction ticks arbitrary: sys) (simp_all add: run_def)

subsubsection \<open>The marks\<close>

lemma holder_in_flight:
  assumes "marksHeld (cs, tr, w)" and "i < length cs" and "holdsMark u (cs ! i)"
  shows "u \<in> inFlightOpens tr"
proof -
  from filter_length_pos [OF assms(2), of "holdsMark u"] assms(3)
  have "0 < length (filter (holdsMark u) cs)" by simp
  moreover from assms(1)
  have "length (filter (holdsMark u) cs) = (if u \<in> inFlightOpens tr then 1 else 0)"
    by (simp add: marksHeld_def)
  ultimately show ?thesis by (simp split: if_splits)
qed

lemma holder_unique:
  assumes "marksHeld (cs, tr, w)" and "i < length cs" and "j < length cs" and "i \<noteq> j"
    and "holdsMark u (cs ! i)"
  shows "\<not> holdsMark u (cs ! j)"
proof
  assume other: "holdsMark u (cs ! j)"
  have "\<not> holdsMark u (Called [])"
    by (simp add: holdsMark_def)
  from filter_length_two [OF assms(2,3,4,5) other this]
  have "2 \<le> length (filter (holdsMark u) cs)" .
  moreover from assms(1)
  have "length (filter (holdsMark u) cs) = (if u \<in> inFlightOpens tr then 1 else 0)"
    by (simp add: marksHeld_def)
  ultimately show False by (simp split: if_splits)
qed

text \<open>A step changes who holds a mark exactly as it changes what is in flight.\<close>

lemma stepCall_marks:
  assumes "marksHeld (cs, tr, w)" and "i < length cs"
    and "stepCall normalizeToUri uriToPath now content (cs ! i) (tr, w) = (c', tr', w')"
  shows "(if holdsMark uri c' then 1 else 0) + (if uri \<in> inFlightOpens tr then 1 else 0)
    = (if holdsMark uri (cs ! i) then (1::nat) else 0) + (if uri \<in> inFlightOpens tr' then 1 else 0)"
proof (cases "cs ! i")
  case (Called filePath)
  with assms(3) beginOpen_marks [of "normalizeToUri filePath" tr w] show ?thesis
    by (auto simp: stepCall_Called holdsMark_def split: if_splits)
next
  case (Waiting u)
  with assms(3) beginOpen_marks [of u tr w] show ?thesis
    by (auto simp: stepCall_Waiting holdsMark_def split: if_splits)
next
  case (Reading u)
  with assms(3) show ?thesis
    by (auto simp: stepCall_Reading holdsMark_def split: option.splits)
next
  case (Opened u)
  with holder_in_flight [OF assms(1,2), of u] have "u \<in> inFlightOpens tr"
    by (simp add: holdsMark_def)
  with Opened assms(3) show ?thesis
    by (auto simp: stepCall_finally holdsMark_def)
next
  case (OpenFailed u)
  with holder_in_flight [OF assms(1,2), of u] have "u \<in> inFlightOpens tr"
    by (simp add: holdsMark_def)
  with OpenFailed assms(3) show ?thesis
    by (auto simp: stepCall_finally holdsMark_def)
next
  case (Returned u)
  with assms(3) show ?thesis by (auto simp: stepCall_ended)
next
  case (Rejected u)
  with assms(3) show ?thesis by (auto simp: stepCall_ended)
qed

lemma advance_marksHeld:
  assumes "marksHeld sys"
  shows "marksHeld (advance normalizeToUri uriToPath tick sys)"
proof -
  obtain i now content where tick: "tick = (i, now, content)" by (cases tick)
  obtain cs tr w where sys: "sys = (cs, tr, w)" by (cases sys)
  show ?thesis
  proof (cases "i < length cs")
    case False
    with assms show ?thesis by (simp add: tick sys advance_out_of_range)
  next
    case True
    obtain c' tr' w' where step:
      "stepCall normalizeToUri uriToPath now content (cs ! i) (tr, w) = (c', tr', w')"
      by (cases "stepCall normalizeToUri uriToPath now content (cs ! i) (tr, w)")
    have "length (filter (holdsMark uri) (cs[i := c']))
        = (if uri \<in> inFlightOpens tr' then 1 else 0)" for uri
    proof -
      from assms have "length (filter (holdsMark uri) cs) = (if uri \<in> inFlightOpens tr then 1 else 0)"
        by (simp add: sys marksHeld_def)
      with filter_update_length [OF True, of "holdsMark uri" c']
        stepCall_marks [OF assms [unfolded sys] True step, of uri]
      show ?thesis by (simp split: if_splits)
    qed
    then show ?thesis
      by (simp add: tick sys advance_eq [OF True] step marksHeld_def)
  qed
qed

lemma run_marksHeld:
  "marksHeld sys \<Longrightarrow> marksHeld (run normalizeToUri uriToPath ticks sys)"
  by (induction ticks arbitrary: sys) (simp_all add: run_def advance_marksHeld)

subsubsection \<open>The notifications for one URI\<close>

lemma opensOnce_keeps:
  assumes "opensOnce uri opens closes (cs, tr, w)"
    and "onFileClosedCallback tr' = onFileClosedCallback tr"
    and "count_list (sent w') (DidClose uri) = count_list (sent w) (DidClose uri)"
    and "didOpenCount uri (sent w') = didOpenCount uri (sent w)"
    and "hasOpen tr' uri = hasOpen tr uri"
    and "c' = Reading uri \<Longrightarrow> \<not> hasOpen tr uri"
    and "c' = Opened uri \<or> c' = Returned uri \<Longrightarrow>
         count_list (sent w) (DidClose uri) = closes \<Longrightarrow> hasOpen tr uri"
  shows "opensOnce uri opens closes (cs[i := c'], tr', w')"
proof -
  have "x = c' \<or> x \<in> set cs" if "x \<in> set (cs[i := c'])" for x
    using that set_update_subset_insert [of cs i c'] by auto
  with assms show ?thesis
    unfolding opensOnce_def by (simp del: set_update_subset_insert) blast
qed

lemma opensOnce_closed:
  assumes "opensOnce uri opens closes (cs, tr, w)"
    and "onFileClosedCallback tr' = onFileClosedCallback tr"
    and "count_list (sent w') (DidClose uri) = Suc (count_list (sent w) (DidClose uri))"
  shows "opensOnce uri opens closes (cs', tr', w')"
  using assms by (simp add: opensOnce_def)

lemma beginOpen_opensOnce:
  assumes inv: "opensOnce uri opens closes (cs, tr, w)"
    and closed: "\<not> hasOpen tr u"
  shows "opensOnce uri opens closes (cs[i := Reading u], beginOpen u (tr, w))"
proof -
  from inv have cb: "onFileClosedCallback tr = Some diagnosticsHook"
    by (simp add: opensOnce_def)
  from beginOpen_cases [of u tr w] show ?thesis
  proof
    assume b: "beginOpen u (tr, w) = (tr\<lparr>inFlightOpens := insert u (inFlightOpens tr)\<rparr>, w)"
    have "opensOnce uri opens closes
        (cs[i := Reading u], tr\<lparr>inFlightOpens := insert u (inFlightOpens tr)\<rparr>, w)"
      using closed by (intro opensOnce_keeps [OF inv]) (auto simp: hasOpen_def)
    with b show ?thesis by simp
  next
    assume "\<exists>old. beginOpen u (tr, w) =
         (tr\<lparr>inFlightOpens := insert u (inFlightOpens tr),
             openFiles := AList.delete old (openFiles tr)\<rparr>,
          runCallback tr old (notify (DidClose old) w))"
    then obtain old where b: "beginOpen u (tr, w) =
         (tr\<lparr>inFlightOpens := insert u (inFlightOpens tr),
             openFiles := AList.delete old (openFiles tr)\<rparr>,
          diagnosticsHook old (notify (DidClose old) w))"
      using cb by (auto simp: runCallback_def)
    let ?tr' = "tr\<lparr>inFlightOpens := insert u (inFlightOpens tr),
             openFiles := AList.delete old (openFiles tr)\<rparr>"
    let ?w' = "diagnosticsHook old (notify (DidClose old) w)"
    have "opensOnce uri opens closes (cs[i := Reading u], ?tr', ?w')"
    proof (cases "old = uri")
      case True
      then show ?thesis
        by (intro opensOnce_closed [OF inv]) simp_all
    next
      case False
      then have "hasOpen ?tr' uri = hasOpen tr uri"
        by (simp add: hasOpen_keys keys_delete)
      with False closed show ?thesis
        by (intro opensOnce_keeps [OF inv]) auto
    qed
    with b show ?thesis by simp
  qed
qed

lemma set_update_others:
  assumes "x \<in> set (xs[i := y])" and "i < length xs"
  shows "x = y \<or> (\<exists>j < length xs. j \<noteq> i \<and> x = xs ! j)"
proof -
  from assms(1) obtain j where j: "j < length xs" "x = xs[i := y] ! j"
    by (auto simp: in_set_conv_nth)
  then show ?thesis
    using assms(2) by (cases "j = i") auto
qed

lemma advance_opensOnce:
  assumes marks: "marksHeld (cs, tr, w)" and inv: "opensOnce uri opens closes (cs, tr, w)"
  shows "opensOnce uri opens closes
    (advance normalizeToUri uriToPath (i, now, content) (cs, tr, w))"
proof (cases "i < length cs")
  case False
  with inv show ?thesis by (simp add: advance_out_of_range)
next
  case True
  note adv = advance_eq [OF True, of normalizeToUri uriToPath now content tr w]
  from True have mem: "cs ! i \<in> set cs" by simp
  from inv have cb: "onFileClosedCallback tr = Some diagnosticsHook"
    and D: "count_list (sent w) (DidClose uri) = closes \<Longrightarrow>
        didOpenCount uri (sent w) = opens + (if hasOpen tr uri then 1 else 0)"
    and R: "count_list (sent w) (DidClose uri) = closes \<Longrightarrow> Reading uri \<in> set cs \<Longrightarrow> \<not> hasOpen tr uri"
    and O: "count_list (sent w) (DidClose uri) = closes \<Longrightarrow> Opened uri \<in> set cs \<Longrightarrow> hasOpen tr uri"
    by (simp_all add: opensOnce_def)
  have found: "opensOnce uri opens closes (cs[i := Returned u], touch u now tr, w)"
    if "hasOpen tr u" for u
    using that by (intro opensOnce_keeps [OF inv]) auto
  have stay: "opensOnce uri opens closes (cs[i := c'], tr, w)"
    if "\<forall>u. c' \<noteq> Reading u \<and> c' \<noteq> Opened u \<and> c' \<noteq> Returned u" for c'
    using that by (intro opensOnce_keeps [OF inv]) auto
  show ?thesis
  proof (cases "cs ! i")
    case (Called filePath)
    show ?thesis
      unfolding adv Called stepCall_Called
      using found [of "normalizeToUri filePath"] stay [of "Waiting (normalizeToUri filePath)"]
        beginOpen_opensOnce [OF inv, of "normalizeToUri filePath" i]
      by (simp add: case_prod_beta)
  next
    case (Waiting u)
    show ?thesis
      unfolding adv Waiting stepCall_Waiting
      using found [of u] stay [of "Waiting u"] beginOpen_opensOnce [OF inv, of u i]
      by (simp add: case_prod_beta)
  next
    case (Reading u)
    show ?thesis
    proof (cases content)
      case None
      with stay [of "OpenFailed u"] show ?thesis
        unfolding adv Reading stepCall_Reading by simp
    next
      case (Some fileText)
      let ?w' = "notify (DidOpen u (getLanguageId (uriToPath u)) fileText) w"
      have "opensOnce uri opens closes (cs[i := Opened u], touch u now tr, ?w')"
      proof (cases "u = uri")
        case False
        then show ?thesis
          by (intro opensOnce_keeps [OF inv]) auto
      next
        case True
        have alone: "Reading uri \<notin> set (cs[i := Opened uri])"
        proof
          assume "Reading uri \<in> set (cs[i := Opened uri])"
          from set_update_others [OF this \<open>i < length cs\<close>]
          obtain j where j: "j < length cs" "j \<noteq> i" "cs ! j = Reading uri"
            by auto
          from Reading True have "holdsMark uri (cs ! i)"
            by (simp add: holdsMark_def)
          from holder_unique [OF marks \<open>i < length cs\<close> j(1) j(2) [symmetric] this] j(3)
          show False by (simp add: holdsMark_def)
        qed
        from Reading True mem have "Reading uri \<in> set cs" by simp
        with R D have "count_list (sent w) (DidClose uri) = closes \<Longrightarrow>
            \<not> hasOpen tr uri \<and> didOpenCount uri (sent w) = opens"
          by simp
        with alone cb inv show ?thesis
          unfolding True opensOnce_def by simp
      qed
      with Some show ?thesis
        unfolding adv Reading stepCall_Reading by simp
    qed
  next
    case (Opened u)
    have "opensOnce uri opens closes
        (cs[i := Returned u], tr\<lparr>inFlightOpens := inFlightOpens tr - {u}\<rparr>, w)"
      using O Opened mem
      by (intro opensOnce_keeps [OF inv]) (auto simp: hasOpen_def)
    then show ?thesis
      unfolding adv Opened stepCall_finally by simp
  next
    case (OpenFailed u)
    have "opensOnce uri opens closes
        (cs[i := Rejected u], tr\<lparr>inFlightOpens := inFlightOpens tr - {u}\<rparr>, w)"
      by (intro opensOnce_keeps [OF inv]) (auto simp: hasOpen_def)
    then show ?thesis
      unfolding adv OpenFailed stepCall_finally by simp
  next
    case (Returned u)
    then have "cs[i := Returned u] = cs"
      using True by (metis list_update_id)
    with inv show ?thesis
      unfolding adv Returned stepCall_ended by simp
  next
    case (Rejected u)
    then have "cs[i := Rejected u] = cs"
      using True by (metis list_update_id)
    with inv show ?thesis
      unfolding adv Rejected stepCall_ended by simp
  qed
qed

lemma run_opensOnce:
  "marksHeld sys \<Longrightarrow> opensOnce uri opens closes sys \<Longrightarrow>
   opensOnce uri opens closes (run normalizeToUri uriToPath ticks sys)"
proof (induction ticks arbitrary: sys)
  case Nil
  then show ?case by (simp add: run_def)
next
  case (Cons tick ticks)
  obtain i now content where tick: "tick = (i, now, content)" by (cases tick)
  obtain cs tr w where sys: "sys = (cs, tr, w)" by (cases sys)
  from Cons.prems have "opensOnce uri opens closes (advance normalizeToUri uriToPath tick sys)"
    unfolding tick sys by (rule advance_opensOnce)
  moreover from Cons.prems(1) have "marksHeld (advance normalizeToUri uriToPath tick sys)"
    by (rule advance_marksHeld)
  ultimately show ?case
    using Cons.IH by (simp add: run_Cons)
qed

subsubsection \<open>Each call stays with its URI\<close>

lemma stepCall_uriOf:
  "uriOf normalizeToUri (fst (stepCall normalizeToUri uriToPath now content c (tr, w)))
     = uriOf normalizeToUri c"
  by (cases c) (simp_all add: stepCall_simps split: option.splits)

lemma stepCall_fails:
  "fst (stepCall normalizeToUri uriToPath now content c (tr, w)) = OpenFailed uri \<Longrightarrow>
   c = Reading uri \<and> content = None"
  "fst (stepCall normalizeToUri uriToPath now content c (tr, w)) = Rejected uri \<Longrightarrow>
   c = OpenFailed uri \<or> c = Rejected uri"
  by (cases c; simp add: stepCall_simps split: option.splits if_splits)+

lemma advance_onTrack:
  assumes track: "onTrack normalizeToUri paths uri cs"
    and reads: "i < length paths \<and> normalizeToUri (paths ! i) = uri \<longrightarrow> content \<noteq> None"
  shows "onTrack normalizeToUri paths uri
    (fst (advance normalizeToUri uriToPath (i, now, content) (cs, tr, w)))"
proof (cases "i < length cs")
  case False
  with track show ?thesis by (simp add: advance_out_of_range)
next
  case True
  let ?c' = "fst (stepCall normalizeToUri uriToPath now content (cs ! i) (tr, w))"
  from track have len: "length cs = length paths"
    and old: "\<And>j. j < length paths \<Longrightarrow>
        uriOf normalizeToUri (cs ! j) = normalizeToUri (paths ! j)
        \<and> cs ! j \<noteq> OpenFailed uri \<and> cs ! j \<noteq> Rejected uri"
    by (simp_all add: onTrack_def)
  from True len have i: "i < length paths" by simp
  have u: "uriOf normalizeToUri ?c' = normalizeToUri (paths ! i)"
    using old [OF i] by (simp add: stepCall_uriOf)
  have nf: "?c' \<noteq> OpenFailed uri"
  proof
    assume f: "?c' = OpenFailed uri"
    from stepCall_fails(1) [OF this] have "cs ! i = Reading uri" "content = None"
      by simp_all
    with old [OF i] reads i show False by simp
  qed
  have nr: "?c' \<noteq> Rejected uri"
    using stepCall_fails(2) [of normalizeToUri uriToPath now content "cs ! i" tr w uri] old [OF i]
    by blast
  have "uriOf normalizeToUri (cs[i := ?c'] ! j) = normalizeToUri (paths ! j)
        \<and> cs[i := ?c'] ! j \<noteq> OpenFailed uri \<and> cs[i := ?c'] ! j \<noteq> Rejected uri"
    if "j < length paths" for j
    using that old [OF that] u nf nr len by (cases "j = i") simp_all
  then show ?thesis
    using len by (simp add: advance_eq [OF True] onTrack_def)
qed

lemma run_onTrack:
  assumes "onTrack normalizeToUri paths uri (fst sys)"
    and "\<forall>(i, now, content) \<in> set ticks.
           i < length paths \<and> normalizeToUri (paths ! i) = uri \<longrightarrow> content \<noteq> None"
  shows "onTrack normalizeToUri paths uri (fst (run normalizeToUri uriToPath ticks sys))"
  using assms
proof (induction ticks arbitrary: sys)
  case Nil
  then show ?case by (simp add: run_def)
next
  case (Cons tick ticks)
  obtain i now content where tick: "tick = (i, now, content)" by (cases tick)
  obtain cs tr w where sys: "sys = (cs, tr, w)" by (cases sys)
  from Cons.prems(2) have "i < length paths \<and> normalizeToUri (paths ! i) = uri \<longrightarrow> content \<noteq> None"
    by (simp add: tick)
  with Cons.prems(1)
  have "onTrack normalizeToUri paths uri (fst (advance normalizeToUri uriToPath tick sys))"
    unfolding tick sys fst_conv by (rule advance_onTrack)
  from Cons.IH [OF this] Cons.prems(2) show ?case
    by (simp add: run_Cons)
qed

subsubsection \<open>Every call ends\<close>

lemma stepCall_stepsLeft:
  "stepsLeft (fst (stepCall normalizeToUri uriToPath now content c (tr, w))) \<le> stepsLeft c"
  by (cases c) (simp_all add: stepCall_simps split: option.splits)

lemma stepCall_progress:
  assumes "\<not> ended c" and "\<forall>u. c = Waiting u \<longrightarrow> u \<notin> inFlightOpens tr"
  shows "stepsLeft (fst (stepCall normalizeToUri uriToPath now content c (tr, w))) < stepsLeft c"
  using assms by (cases c) (simp_all add: stepCall_simps split: option.splits)

lemma sum_list_update_le:
  fixes xs :: "nat list"
  assumes "i < length xs" and "y \<le> xs ! i"
  shows "sum_list (xs[i := y]) \<le> sum_list xs"
    and "y < xs ! i \<Longrightarrow> sum_list (xs[i := y]) < sum_list xs"
proof -
  from assms(1) have "xs ! i \<le> sum_list xs"
    by (simp add: member_le_sum_list)
  with assms show "sum_list (xs[i := y]) \<le> sum_list xs"
    and "y < xs ! i \<Longrightarrow> sum_list (xs[i := y]) < sum_list xs"
    by (simp_all add: sum_list_update)
qed

lemma advance_stepsLeft:
  "sum_list (map stepsLeft (fst (advance normalizeToUri uriToPath tick sys)))
     \<le> sum_list (map stepsLeft (fst sys))"
proof -
  obtain i now content where tick: "tick = (i, now, content)" by (cases tick)
  obtain cs tr w where sys: "sys = (cs, tr, w)" by (cases sys)
  show ?thesis
  proof (cases "i < length cs")
    case False
    then show ?thesis by (simp add: tick sys advance_out_of_range)
  next
    case True
    then show ?thesis
      using sum_list_update_le(1) [of i "map stepsLeft cs"
          "stepsLeft (fst (stepCall normalizeToUri uriToPath now content (cs ! i) (tr, w)))"]
        stepCall_stepsLeft [of normalizeToUri uriToPath now content "cs ! i" tr w]
      by (simp add: tick sys advance_eq map_update)
  qed
qed

lemma run_stepsLeft:
  "sum_list (map stepsLeft (fst (run normalizeToUri uriToPath ticks sys)))
     \<le> sum_list (map stepsLeft (fst sys))"
proof (induction ticks arbitrary: sys)
  case Nil
  then show ?case by (simp add: run_def)
next
  case (Cons tick ticks)
  from Cons.IH [of "advance normalizeToUri uriToPath tick sys"]
    advance_stepsLeft [of normalizeToUri uriToPath tick sys]
  show ?case by (simp add: run_Cons)
qed

lemma advance_progress:
  assumes "i < length cs" and "\<not> ended (cs ! i)"
    and "\<forall>u. cs ! i = Waiting u \<longrightarrow> u \<notin> inFlightOpens tr"
  shows "sum_list (map stepsLeft (fst (advance normalizeToUri uriToPath (i, now, content) (cs, tr, w))))
     < sum_list (map stepsLeft cs)"
  using sum_list_update_le(2) [of i "map stepsLeft cs"
      "stepsLeft (fst (stepCall normalizeToUri uriToPath now content (cs ! i) (tr, w)))"]
    stepCall_progress [OF assms(2,3), of normalizeToUri uriToPath now content w]
    stepCall_stepsLeft [of normalizeToUri uriToPath now content "cs ! i" tr w] assms(1)
  by (simp add: advance_eq map_update)

lemma run_others:
  "\<forall>tick \<in> set ticks. fst tick \<noteq> i \<Longrightarrow>
   fst (run normalizeToUri uriToPath ticks sys) ! i = fst sys ! i"
proof (induction ticks arbitrary: sys)
  case Nil
  then show ?case by (simp add: run_def)
next
  case (Cons tick ticks)
  obtain j now content where tick: "tick = (j, now, content)" by (cases tick)
  obtain cs tr w where sys: "sys = (cs, tr, w)" by (cases sys)
  from Cons.prems have "j \<noteq> i" by (simp add: tick)
  then have "fst (advance normalizeToUri uriToPath tick sys) ! i = fst sys ! i"
    by (cases "j < length cs") (simp_all add: tick sys advance_eq advance_out_of_range)
  with Cons.IH [of "advance normalizeToUri uriToPath tick sys"] Cons.prems show ?case
    by (simp add: run_Cons)
qed

lemma run_ended:
  "\<forall>tick \<in> set ticks. fst tick < length cs \<longrightarrow> ended (cs ! fst tick) \<Longrightarrow>
   run normalizeToUri uriToPath ticks (cs, tr, w) = (cs, tr, w)"
proof (induction ticks)
  case Nil
  then show ?case by (simp add: run_def)
next
  case (Cons tick ticks)
  obtain j now content where tick: "tick = (j, now, content)" by (cases tick)
  have "advance normalizeToUri uriToPath tick (cs, tr, w) = (cs, tr, w)"
  proof (cases "j < length cs")
    case False
    then show ?thesis by (simp add: tick advance_out_of_range)
  next
    case True
    with Cons.prems have "ended (cs ! j)" by (simp add: tick)
    then show ?thesis
      using True by (cases "cs ! j") (simp_all add: tick advance_eq stepCall_ended list_update_same_conv)
  qed
  with Cons show ?case by (simp add: run_Cons)
qed

lemma round_split:
  assumes "roundOf n ticks" and "i < n"
  shows "ticks = take i ticks @ ticks ! i # drop (Suc i) ticks"
    and "fst (ticks ! i) = i"
    and "\<forall>tick \<in> set (take i ticks). fst tick < i"
proof -
  from assms(1) have m: "map fst ticks = [0..<n]"
    by (simp add: roundOf_def)
  then have len: "length ticks = n"
    by (metis length_map length_upt minus_nat.diff_0)
  with assms(2) show "ticks = take i ticks @ ticks ! i # drop (Suc i) ticks"
    by (simp add: id_take_nth_drop)
  have nth: "fst (ticks ! j) = j" if "j < n" for j
    using that m len by (metis add_0 nth_map nth_upt)
  from nth [OF assms(2)] show "fst (ticks ! i) = i" .
  show "\<forall>tick \<in> set (take i ticks). fst tick < i"
  proof
    fix tick
    assume "tick \<in> set (take i ticks)"
    then obtain j where j: "j < length (take i ticks)" "tick = take i ticks ! j"
      by (auto simp: in_set_conv_nth)
    with assms(2) len have "j < i" "j < n" "tick = ticks ! j"
      by simp_all
    with nth [of j] show "fst tick < i" by simp
  qed
qed

text \<open>
  A round in which some call has not ended brings the calls nearer their end: a call that
  holds a mark or has not run yet goes on whatever the others do, and when there is none,
  no URI is in flight and the first waiting call goes on.
\<close>

lemma round_progress:
  assumes marks: "marksHeld (cs, tr, w)" and round: "roundOf (length cs) ticks"
    and unended: "\<exists>c \<in> set cs. \<not> ended c"
  shows "sum_list (map stepsLeft (fst (run normalizeToUri uriToPath ticks (cs, tr, w))))
     < sum_list (map stepsLeft cs)"
proof -
  have goes: "?thesis"
    if i: "i < length cs"
      and before: "run normalizeToUri uriToPath (take i ticks) (cs, tr, w) = (cs1, tr1, w1)"
      and same: "cs1 ! i = cs ! i" and ne: "\<not> ended (cs ! i)"
      and free: "\<forall>u. cs ! i = Waiting u \<longrightarrow> u \<notin> inFlightOpens tr1" for i cs1 tr1 w1
  proof -
    note split = round_split [OF round i]
    obtain now content where t: "ticks ! i = (i, now, content)"
      using split(2) by (cases "ticks ! i") auto
    have len1: "length cs1 = length cs"
      using length_run [of normalizeToUri uriToPath "take i ticks" "(cs, tr, w)"] before
      by simp
    have "sum_list (map stepsLeft cs1) \<le> sum_list (map stepsLeft cs)"
      using run_stepsLeft [of normalizeToUri uriToPath "take i ticks" "(cs, tr, w)"] before
      by simp
    moreover have "sum_list (map stepsLeft
        (fst (advance normalizeToUri uriToPath (i, now, content) (cs1, tr1, w1))))
        < sum_list (map stepsLeft cs1)"
      using i len1 same ne free by (intro advance_progress) simp_all
    moreover have "sum_list (map stepsLeft (fst (run normalizeToUri uriToPath (drop (Suc i) ticks)
        (advance normalizeToUri uriToPath (i, now, content) (cs1, tr1, w1)))))
        \<le> sum_list (map stepsLeft
             (fst (advance normalizeToUri uriToPath (i, now, content) (cs1, tr1, w1))))"
      by (rule run_stepsLeft)
    moreover have "run normalizeToUri uriToPath ticks (cs, tr, w)
        = run normalizeToUri uriToPath (drop (Suc i) ticks)
            (advance normalizeToUri uriToPath (i, now, content) (cs1, tr1, w1))"
      by (subst split(1)) (simp add: run_append run_Cons before t)
    ultimately show ?thesis by simp
  qed
  show ?thesis
  proof (cases "\<exists>i < length cs. \<not> ended (cs ! i) \<and> (\<forall>u. cs ! i \<noteq> Waiting u)")
    case True
    then obtain i where i: "i < length cs" "\<not> ended (cs ! i)" "\<forall>u. cs ! i \<noteq> Waiting u"
      by blast
    obtain cs1 tr1 w1 where
      before: "run normalizeToUri uriToPath (take i ticks) (cs, tr, w) = (cs1, tr1, w1)"
      by (cases "run normalizeToUri uriToPath (take i ticks) (cs, tr, w)")
    from round_split(3) [OF round i(1)] have "\<forall>tick \<in> set (take i ticks). fst tick \<noteq> i"
      by auto
    from run_others [OF this, of normalizeToUri uriToPath "(cs, tr, w)"] before
    have "cs1 ! i = cs ! i" by simp
    with i before show ?thesis
      by (intro goes [of i cs1 tr1 w1]) simp_all
  next
    case False
    then have waits: "\<And>i. i < length cs \<Longrightarrow> \<not> ended (cs ! i) \<Longrightarrow> \<exists>u. cs ! i = Waiting u"
      by blast
    have idle: "inFlightOpens tr = {}"
    proof (rule ccontr)
      assume "inFlightOpens tr \<noteq> {}"
      then obtain u where "u \<in> inFlightOpens tr" by blast
      with marks have "length (filter (holdsMark u) cs) = 1"
        by (simp add: marksHeld_def)
      then have "filter (holdsMark u) cs \<noteq> []" by auto
      then obtain c where "c \<in> set cs" "holdsMark u c"
        by (auto simp: filter_empty_conv)
      then obtain i where "i < length cs" "holdsMark u (cs ! i)"
        by (auto simp: in_set_conv_nth)
      with waits [of i] show False
        by (auto simp: holdsMark_def)
    qed
    from unended obtain k where "k < length cs" "\<not> ended (cs ! k)"
      by (auto simp: in_set_conv_nth)
    then have "\<exists>k. k < length cs \<and> \<not> ended (cs ! k)" by blast
    then obtain i where i: "i < length cs" "\<not> ended (cs ! i)"
      and least: "\<And>j. j < i \<Longrightarrow> \<not> (j < length cs \<and> \<not> ended (cs ! j))"
      by (auto simp: exists_least_iff [of "\<lambda>k. k < length cs \<and> \<not> ended (cs ! k)"])
    have "\<forall>tick \<in> set (take i ticks). fst tick < length cs \<longrightarrow> ended (cs ! fst tick)"
      using round_split(3) [OF round i(1)] least by blast
    from run_ended [OF this]
    have before: "run normalizeToUri uriToPath (take i ticks) (cs, tr, w) = (cs, tr, w)" .
    have free: "\<forall>u. cs ! i = Waiting u \<longrightarrow> u \<notin> inFlightOpens tr"
      by (simp add: idle)
    show ?thesis
      by (rule goes [OF i(1) before _ i(2) free]) simp
  qed
qed

lemma stepsLeft_ended: "stepsLeft c = 0 \<longleftrightarrow> ended c"
  by (cases c) simp_all

lemma rounds_finish:
  assumes "marksHeld sys" and "\<forall>r \<in> set rounds. roundOf (length (fst sys)) r"
  shows "sum_list (map stepsLeft (fst (run normalizeToUri uriToPath (concat rounds) sys)))
        + length rounds \<le> sum_list (map stepsLeft (fst sys))
    \<or> sum_list (map stepsLeft (fst (run normalizeToUri uriToPath (concat rounds) sys))) = 0"
  using assms
proof (induction rounds arbitrary: sys)
  case Nil
  then show ?case by (simp add: run_def)
next
  case (Cons r rounds)
  obtain cs tr w where sys: "sys = (cs, tr, w)" by (cases sys)
  let ?sys1 = "run normalizeToUri uriToPath r sys"
  let ?final = "run normalizeToUri uriToPath (concat rounds) ?sys1"
  have final: "run normalizeToUri uriToPath (concat (r # rounds)) sys = ?final"
    by (simp add: run_append)
  from Cons.prems(1) have m1: "marksHeld ?sys1"
    by (rule run_marksHeld)
  from Cons.prems(2) have r1: "\<forall>r \<in> set rounds. roundOf (length (fst ?sys1)) r"
    by simp
  note IH = Cons.IH [OF m1 r1]
  show ?case
  proof (cases "\<exists>c \<in> set cs. \<not> ended c")
    case True
    from Cons.prems(2) have "roundOf (length cs) r" by (simp add: sys)
    from round_progress [OF Cons.prems(1) [unfolded sys] this True, of normalizeToUri uriToPath]
    have "sum_list (map stepsLeft (fst ?sys1)) < sum_list (map stepsLeft (fst sys))"
      by (simp add: sys)
    with IH show ?thesis
      unfolding final by auto
  next
    case False
    then have "sum_list (map stepsLeft (fst sys)) = 0"
      by (simp add: sys stepsLeft_ended)
    with run_stepsLeft [of normalizeToUri uriToPath "concat (r # rounds)" sys]
    show ?thesis by simp
  qed
qed

lemma holders_Called [simp]: "filter (holdsMark u) (map Called paths) = []"
  by (induction paths) (simp_all add: holdsMark_def)

lemma stepsLeft_Called: "sum_list (map stepsLeft (map Called paths)) = 4 * length paths"
  by (induction paths) simp_all

lemma marksHeld_start: "inFlightOpens tr = {} \<Longrightarrow> marksHeld (map Called paths, tr, w)"
  by (simp add: marksHeld_def)

lemma opensOnce_start:
  assumes "\<not> hasOpen tr uri" and "onFileClosedCallback tr = Some diagnosticsHook"
  shows "opensOnce uri (didOpenCount uri (sent w)) (count_list (sent w) (DidClose uri))
    (map Called paths, tr, w)"
  using assms by (auto simp: opensOnce_def)

lemma onTrack_start: "onTrack normalizeToUri paths uri (map Called paths)"
  by (simp add: onTrack_def)

text \<open>After any steps, four rounds for every call bring all calls to their end.\<close>

lemma calls_end:
  assumes idle: "inFlightOpens tr = {}"
    and rounds: "length rounds = 4 * length paths" "\<forall>r \<in> set rounds. roundOf (length paths) r"
  shows "\<forall>c \<in> set (fst (run normalizeToUri uriToPath (ticks @ concat rounds)
           (map Called paths, tr, w))). ended c"
proof -
  let ?start = "(map Called paths, tr, w)"
  let ?sys1 = "run normalizeToUri uriToPath ticks ?start"
  let ?final = "run normalizeToUri uriToPath (concat rounds) ?sys1"
  have m1: "marksHeld ?sys1"
    by (intro run_marksHeld marksHeld_start idle)
  have r1: "\<forall>r \<in> set rounds. roundOf (length (fst ?sys1)) r"
    using rounds(2) by simp
  have "sum_list (map stepsLeft (fst ?sys1)) \<le> 4 * length paths"
    using run_stepsLeft [of normalizeToUri uriToPath ticks ?start]
    by (simp only: fst_conv stepsLeft_Called)
  with rounds_finish [OF m1 r1, of normalizeToUri uriToPath] rounds(1)
  have "sum_list (map stepsLeft (fst ?final)) = 0"
    by linarith
  then have "\<forall>c \<in> set (fst ?final). ended c"
    by (simp add: stepsLeft_ended)
  then show ?thesis
    by (simp add: run_append)
qed

lemma ended_cases: "ended c \<Longrightarrow> c = Returned (uriOf normalizeToUri c) \<or> c = Rejected (uriOf normalizeToUri c)"
  by (cases c) simp_all

subsubsection \<open>A call that waits\<close>

lemma waiter_waits:
  assumes "waiter < length cs" and "cs ! waiter = Waiting uri" and "uri \<in> inFlightOpens tr"
  shows "advance normalizeToUri uriToPath (waiter, now, content) (cs, tr, w) = (cs, tr, w)"
  using assms by (simp add: advance_eq stepCall_Waiting list_update_same_conv)

lemma waiter_after_open:
  assumes "opener < length cs" and "waiter < length cs" and "opener \<noteq> waiter"
    and "cs ! opener = Reading uri" and "cs ! waiter = Waiting uri"
  shows "run normalizeToUri uriToPath
      [(opener, t1, Some fileText), (opener, t2, c2), (waiter, t3, c3)] (cs, tr, w)
    = (cs[opener := Returned uri, waiter := Returned uri],
       touch uri t3 ((touch uri t1 tr)\<lparr>inFlightOpens := inFlightOpens tr - {uri}\<rparr>),
       notify (DidOpen uri (getLanguageId (uriToPath uri)) fileText) w)"
  using assms
  by (simp add: run_def advance_eq stepCall_Reading stepCall_finally stepCall_Waiting
      hasOpen_keys touch_def keys_update)

lemma waiter_after_failure:
  assumes "opener < length cs" and "waiter < length cs" and "opener \<noteq> waiter"
    and "cs ! opener = Reading uri" and "cs ! waiter = Waiting uri" and "\<not> hasOpen tr uri"
  shows "run normalizeToUri uriToPath
      [(opener, t1, None), (opener, t2, c2), (waiter, t3, c3)] (cs, tr, w)
    = (cs[opener := Rejected uri, waiter := Reading uri],
       beginOpen uri (tr\<lparr>inFlightOpens := inFlightOpens tr - {uri}\<rparr>, w))"
  using assms
  by (simp add: run_def advance_eq stepCall_Reading stepCall_finally stepCall_Waiting
      hasOpen_def case_prod_beta)

text \<open>
  Claim C2, as amended. Calls of \<open>ensureFileOpen\<close> for any paths are made on a tracker
  with nothing in flight and run side by side, in any order of steps; \<open>uri\<close> is a URI
  that is not open at the start.

  While they run, at most one call holds the mark of \<open>uri\<close>. As long as \<open>uri\<close> has not
  been evicted (no further \<open>didClose\<close> has been sent for it), at most one \<open>didOpen\<close> has
  been sent for it: one when it is in the map, none otherwise; and it is in the map once
  any call has returned it.

  Let the calls go on in rounds, four for each call. Then every call has ended. If moreover
  no read for \<open>uri\<close> failed, every call for \<open>uri\<close> has returned it, and, unless \<open>uri\<close>
  was evicted meanwhile, exactly one \<open>didOpen\<close> has been sent for it.

  A call that waits for \<open>uri\<close> stays as it is while \<open>uri\<close> is in flight. When the call
  that holds the mark has opened the file and left, the waiting call returns without a
  \<open>didOpen\<close> of its own. When that call's read has failed, the waiting call marks the
  URI itself and starts reading.
\<close>

theorem concurrent_opens_one_didOpen:
  fixes normalizeToUri uriToPath paths tr w uri ticks rounds
  defines "during \<equiv> run normalizeToUri uriToPath ticks (map Called paths, tr, w)"
  defines "final \<equiv> run normalizeToUri uriToPath (ticks @ concat rounds) (map Called paths, tr, w)"
  assumes "\<not> hasOpen tr uri" and "inFlightOpens tr = {}"
    and "onFileClosedCallback tr = Some diagnosticsHook"
  shows "length (filter (holdsMark uri) (fst during)) \<le> 1
    \<and> (count_list (sent (snd (snd during))) (DidClose uri) = count_list (sent w) (DidClose uri)
         \<longrightarrow> didOpenCount uri (sent (snd (snd during)))
               = didOpenCount uri (sent w) + (if hasOpen (fst (snd during)) uri then 1 else 0)
             \<and> (Returned uri \<in> set (fst during) \<longrightarrow> hasOpen (fst (snd during)) uri))
    \<and> (length rounds = 4 * length paths \<and> (\<forall>r \<in> set rounds. roundOf (length paths) r)
         \<longrightarrow> (\<forall>c \<in> set (fst final). ended c)
             \<and> ((\<forall>(i, now, content) \<in> set (ticks @ concat rounds).
                    i < length paths \<and> normalizeToUri (paths ! i) = uri \<longrightarrow> content \<noteq> None)
                  \<longrightarrow> (\<forall>i < length paths. normalizeToUri (paths ! i) = uri \<longrightarrow>
                          fst final ! i = Returned uri)
                      \<and> (uri \<in> normalizeToUri ` set paths
                           \<and> count_list (sent (snd (snd final))) (DidClose uri)
                               = count_list (sent w) (DidClose uri)
                           \<longrightarrow> didOpenCount uri (sent (snd (snd final)))
                                 = didOpenCount uri (sent w) + 1)))
    \<and> (waiter < length cs \<and> cs ! waiter = Waiting uri \<and> uri \<in> inFlightOpens tracker \<longrightarrow>
         advance normalizeToUri uriToPath (waiter, now, content) (cs, tracker, outside) = (cs, tracker, outside))
    \<and> (opener < length cs \<and> waiter < length cs \<and> opener \<noteq> waiter
         \<and> cs ! opener = Reading uri \<and> cs ! waiter = Waiting uri
         \<longrightarrow> run normalizeToUri uriToPath
               [(opener, readTime, Some fileText), (opener, finallyTime, finallyContent), (waiter, pollTime, pollContent)] (cs, tracker, outside)
             = (cs[opener := Returned uri, waiter := Returned uri],
                touch uri pollTime ((touch uri readTime tracker)\<lparr>inFlightOpens := inFlightOpens tracker - {uri}\<rparr>),
                notify (DidOpen uri (getLanguageId (uriToPath uri)) fileText) outside)
           \<and> (\<not> hasOpen tracker uri \<longrightarrow>
                run normalizeToUri uriToPath
                  [(opener, readTime, None), (opener, finallyTime, finallyContent), (waiter, pollTime, pollContent)] (cs, tracker, outside)
                = (cs[opener := Rejected uri, waiter := Reading uri],
                   beginOpen uri (tracker\<lparr>inFlightOpens := inFlightOpens tracker - {uri}\<rparr>, outside))))"
proof -
  let ?start = "(map Called paths, tr, w)"
  let ?opens = "didOpenCount uri (sent w)" and ?closes = "count_list (sent w) (DidClose uri)"
  have m0: "marksHeld ?start"
    by (rule marksHeld_start) fact
  have o0: "opensOnce uri ?opens ?closes ?start"
    by (rule opensOnce_start) fact+
  have once: "count_list (sent w') (DidClose uri) = ?closes \<longrightarrow>
      didOpenCount uri (sent w') = ?opens + (if hasOpen tr' uri then 1 else 0)
      \<and> (Returned uri \<in> set cs' \<longrightarrow> hasOpen tr' uri)"
    if "run normalizeToUri uriToPath schedule ?start = (cs', tr', w')" for schedule cs' tr' w'
    using run_opensOnce [OF m0 o0, of normalizeToUri uriToPath schedule] that
    by (simp add: opensOnce_def)
  obtain cs1 tr1 w1 where d: "during = (cs1, tr1, w1)" by (cases during)
  obtain cs2 tr2 w2 where f: "final = (cs2, tr2, w2)" by (cases final)
  have "marksHeld during"
    unfolding during_def by (rule run_marksHeld [OF m0])
  then have A1: "length (filter (holdsMark uri) (fst during)) \<le> 1"
    by (simp add: d marksHeld_def)
  have A2: "count_list (sent (snd (snd during))) (DidClose uri) = ?closes \<longrightarrow>
      didOpenCount uri (sent (snd (snd during)))
        = ?opens + (if hasOpen (fst (snd during)) uri then 1 else 0)
      \<and> (Returned uri \<in> set (fst during) \<longrightarrow> hasOpen (fst (snd during)) uri)"
    using once [OF d [unfolded during_def]] by (simp add: d)
  have B: "(\<forall>c \<in> set (fst final). ended c)
      \<and> ((\<forall>(i, now, content) \<in> set (ticks @ concat rounds).
             i < length paths \<and> normalizeToUri (paths ! i) = uri \<longrightarrow> content \<noteq> None)
           \<longrightarrow> (\<forall>i < length paths. normalizeToUri (paths ! i) = uri \<longrightarrow>
                   fst final ! i = Returned uri)
               \<and> (uri \<in> normalizeToUri ` set paths
                    \<and> count_list (sent (snd (snd final))) (DidClose uri) = ?closes
                    \<longrightarrow> didOpenCount uri (sent (snd (snd final))) = ?opens + 1))"
    if rounds: "length rounds = 4 * length paths" "\<forall>r \<in> set rounds. roundOf (length paths) r"
  proof -
    have all: "\<forall>c \<in> set (fst final). ended c"
      unfolding final_def by (rule calls_end [OF assms(4) rounds])
    have rest: "(\<forall>i < length paths. normalizeToUri (paths ! i) = uri \<longrightarrow>
                   fst final ! i = Returned uri)
               \<and> (uri \<in> normalizeToUri ` set paths
                    \<and> count_list (sent (snd (snd final))) (DidClose uri) = ?closes
                    \<longrightarrow> didOpenCount uri (sent (snd (snd final))) = ?opens + 1)"
      if reads: "\<forall>(i, now, content) \<in> set (ticks @ concat rounds).
             i < length paths \<and> normalizeToUri (paths ! i) = uri \<longrightarrow> content \<noteq> None"
    proof -
      have "onTrack normalizeToUri paths uri (fst final)"
        unfolding final_def
        by (rule run_onTrack [OF _ reads]) (simp add: onTrack_start)
      then have len: "length cs2 = length paths"
        and track: "\<And>i. i < length paths \<Longrightarrow>
          uriOf normalizeToUri (cs2 ! i) = normalizeToUri (paths ! i)
          \<and> cs2 ! i \<noteq> Rejected uri"
        by (simp_all add: f onTrack_def)
      have returned: "cs2 ! i = Returned uri"
        if "i < length paths" "normalizeToUri (paths ! i) = uri" for i
      proof -
        from that(1) len all have "ended (cs2 ! i)"
          by (simp add: f)
        from ended_cases [OF this, of normalizeToUri] track [OF that(1)] that(2)
        show ?thesis by auto
      qed
      have "didOpenCount uri (sent w2) = ?opens + 1"
        if "uri \<in> normalizeToUri ` set paths" "count_list (sent w2) (DidClose uri) = ?closes"
      proof -
        from that(1) obtain i where i: "i < length paths" "normalizeToUri (paths ! i) = uri"
          by (auto simp: in_set_conv_nth)
        from returned [OF this] i(1) len have "Returned uri \<in> set cs2"
          by (metis nth_mem)
        with once [OF f [unfolded final_def]] that(2) show ?thesis
          by simp
      qed
      with returned show ?thesis
        by (simp add: f)
    qed
    from all rest show ?thesis by blast
  qed
  have C1: "advance normalizeToUri uriToPath (waiter, now, content) (cs, tracker, outside) = (cs, tracker, outside)"
    if "waiter < length cs \<and> cs ! waiter = Waiting uri \<and> uri \<in> inFlightOpens tracker"
    using that waiter_waits [of waiter cs uri tracker normalizeToUri uriToPath now content outside]
    by blast
  have C2: "run normalizeToUri uriToPath
               [(opener, readTime, Some fileText), (opener, finallyTime, finallyContent), (waiter, pollTime, pollContent)] (cs, tracker, outside)
             = (cs[opener := Returned uri, waiter := Returned uri],
                touch uri pollTime ((touch uri readTime tracker)\<lparr>inFlightOpens := inFlightOpens tracker - {uri}\<rparr>),
                notify (DidOpen uri (getLanguageId (uriToPath uri)) fileText) outside)
           \<and> (\<not> hasOpen tracker uri \<longrightarrow>
                run normalizeToUri uriToPath
                  [(opener, readTime, None), (opener, finallyTime, finallyContent), (waiter, pollTime, pollContent)] (cs, tracker, outside)
                = (cs[opener := Rejected uri, waiter := Reading uri],
                   beginOpen uri (tracker\<lparr>inFlightOpens := inFlightOpens tracker - {uri}\<rparr>, outside)))"
    if "opener < length cs \<and> waiter < length cs \<and> opener \<noteq> waiter
         \<and> cs ! opener = Reading uri \<and> cs ! waiter = Waiting uri"
    using that waiter_after_open [of opener cs waiter uri normalizeToUri uriToPath readTime fileText finallyTime finallyContent pollTime pollContent tracker outside]
      waiter_after_failure [of opener cs waiter uri tracker normalizeToUri uriToPath readTime finallyTime finallyContent pollTime pollContent outside]
    by blast
  from A1 A2 B C1 C2 show ?thesis
    by blast
qed

theorem concurrent_opens_one_didOpen_witness:
  "\<not> hasOpen (onFileClosed diagnosticsHook newFileTracker) ''file:///src/a.cpp''
   \<and> inFlightOpens (onFileClosed diagnosticsHook newFileTracker) = {}
   \<and> onFileClosedCallback (onFileClosed diagnosticsHook newFileTracker) = Some diagnosticsHook
   \<and> (length (replicate 16 [(0, 10, Some ''int a;''), (1, 10, Some ''int a;''), (2, 10, None), (3, 10, Some ''int a;'')]) = 4 * length [''/src/a.cpp'', ''/src/a.cpp'', ''/src/b.cpp'', ''/src/a.cpp'']
     \<and> list_all (roundOf (length [''/src/a.cpp'', ''/src/a.cpp'', ''/src/b.cpp'', ''/src/a.cpp'']))
           (replicate 16 [(0, 10, Some ''int a;''), (1, 10, Some ''int a;''), (2, 10, None), (3, 10, Some ''int a;'')]))
   \<and> list_all
        (\<lambda>(i, now, content).
           i < length [''/src/a.cpp'', ''/src/a.cpp'', ''/src/b.cpp'', ''/src/a.cpp'']
           \<and> ((@) ''file://'') ([''/src/a.cpp'', ''/src/a.cpp'', ''/src/b.cpp'', ''/src/a.cpp''] ! i)
               = ''file:///src/a.cpp''
           \<longrightarrow> content \<noteq> None)
        ([(0, 1, Some ''int a;''), (1, 1, Some ''int a;''), (2, 1, None), (0, 5, Some ''int a;''),
          (3, 6, Some ''int a;'')]
          @ concat (replicate 16 [(0, 10, Some ''int a;''), (1, 10, Some ''int a;''), (2, 10, None), (3, 10, Some ''int a;'')]))
   \<and> fst (run ((@) ''file://'') (drop 7)
        [(0, 1, Some ''int a;''), (1, 1, Some ''int a;''), (2, 1, None), (0, 5, Some ''int a;''),
          (3, 6, Some ''int a;'')]
        (map Called [''/src/a.cpp'', ''/src/a.cpp'', ''/src/b.cpp'', ''/src/a.cpp''],
         (onFileClosed diagnosticsHook newFileTracker),
         \<lparr>sent = [], diagnosticsCache = Some Map.empty\<rparr>))
     = [Opened ''file:///src/a.cpp'', Waiting ''file:///src/a.cpp'', Reading ''file:///src/b.cpp'',
        Returned ''file:///src/a.cpp'']
   \<and> fst (run ((@) ''file://'') (drop 7)
        ([(0, 1, Some ''int a;''), (1, 1, Some ''int a;''), (2, 1, None), (0, 5, Some ''int a;''),
          (3, 6, Some ''int a;'')]
          @ concat (replicate 16 [(0, 10, Some ''int a;''), (1, 10, Some ''int a;''), (2, 10, None), (3, 10, Some ''int a;'')]))
        (map Called [''/src/a.cpp'', ''/src/a.cpp'', ''/src/b.cpp'', ''/src/a.cpp''],
         (onFileClosed diagnosticsHook newFileTracker),
         \<lparr>sent = [], diagnosticsCache = Some Map.empty\<rparr>))
     = [Returned ''file:///src/a.cpp'', Returned ''file:///src/a.cpp'', Rejected ''file:///src/b.cpp'',
        Returned ''file:///src/a.cpp'']
   \<and> sent (snd (snd (run ((@) ''file://'') (drop 7)
        ([(0, 1, Some ''int a;''), (1, 1, Some ''int a;''), (2, 1, None), (0, 5, Some ''int a;''),
          (3, 6, Some ''int a;'')]
          @ concat (replicate 16 [(0, 10, Some ''int a;''), (1, 10, Some ''int a;''), (2, 10, None), (3, 10, Some ''int a;'')]))
        (map Called [''/src/a.cpp'', ''/src/a.cpp'', ''/src/b.cpp'', ''/src/a.cpp''],
         (onFileClosed diagnosticsHook newFileTracker),
         \<lparr>sent = [], diagnosticsCache = Some Map.empty\<rparr>))))
     = [DidOpen ''file:///src/a.cpp'' ''cpp'' ''int a;'']
   \<and> fst (run ((@) ''file://'') (drop 7) [(0, 7, None), (0, 7, None), (1, 17, None)]
        ([Reading ''file:///src/a.cpp'', Waiting ''file:///src/a.cpp''],
         (onFileClosed diagnosticsHook newFileTracker)\<lparr>inFlightOpens := {''file:///src/a.cpp''}\<rparr>,
         \<lparr>sent = [], diagnosticsCache = Some Map.empty\<rparr>))
     = [Rejected ''file:///src/a.cpp'', Reading ''file:///src/a.cpp'']"
proof -
  have closed: "\<not> hasOpen (onFileClosed diagnosticsHook newFileTracker) ''file:///src/a.cpp''"
    by (simp add: hasOpen_def onFileClosed_def newFileTracker_def)
  have idle: "inFlightOpens (onFileClosed diagnosticsHook newFileTracker) = {}"
    by (simp add: onFileClosed_def newFileTracker_def)
  have hook: "onFileClosedCallback (onFileClosed diagnosticsHook newFileTracker) = Some diagnosticsHook"
    by (simp add: onFileClosed_def)
  have rounds: "length (replicate 16 [(0, 10, Some ''int a;''), (1, 10, Some ''int a;''), (2, 10, None), (3, 10, Some ''int a;'')]) = 4 * length [''/src/a.cpp'', ''/src/a.cpp'', ''/src/b.cpp'', ''/src/a.cpp'']
     \<and> (\<forall>r \<in> set (replicate 16 [(0, 10, Some ''int a;''), (1, 10, Some ''int a;''), (2, 10, None), (3, 10, Some ''int a;'')]).
           roundOf (length [''/src/a.cpp'', ''/src/a.cpp'', ''/src/b.cpp'', ''/src/a.cpp'']) r)"
    by (simp add: roundOf_def upt_rec)
  have reads: "\<forall>(i, now, content) \<in> set ([(0, 1, Some ''int a;''), (1, 1, Some ''int a;''), (2, 1, None), (0, 5, Some ''int a;''),
          (3, 6, Some ''int a;'')]
          @ concat (replicate 16 [(0, 10, Some ''int a;''), (1, 10, Some ''int a;''), (2, 10, None), (3, 10, Some ''int a;'')])).
       i < length [''/src/a.cpp'', ''/src/a.cpp'', ''/src/b.cpp'', ''/src/a.cpp'']
       \<and> ((@) ''file://'') ([''/src/a.cpp'', ''/src/a.cpp'', ''/src/b.cpp'', ''/src/a.cpp''] ! i) = ''file:///src/a.cpp''
       \<longrightarrow> content \<noteq> None"
    by (simp add: nth_Cons split: nat.splits)
  have during: "fst (run ((@) ''file://'') (drop 7)
        [(0, 1, Some ''int a;''), (1, 1, Some ''int a;''), (2, 1, None), (0, 5, Some ''int a;''),
          (3, 6, Some ''int a;'')]
        (map Called [''/src/a.cpp'', ''/src/a.cpp'', ''/src/b.cpp'', ''/src/a.cpp''],
         (onFileClosed diagnosticsHook newFileTracker),
         \<lparr>sent = [], diagnosticsCache = Some Map.empty\<rparr>))
     = [Opened ''file:///src/a.cpp'', Waiting ''file:///src/a.cpp'', Reading ''file:///src/b.cpp'',
        Returned ''file:///src/a.cpp'']"
    by code_simp
  have final: "fst (run ((@) ''file://'') (drop 7)
        ([(0, 1, Some ''int a;''), (1, 1, Some ''int a;''), (2, 1, None), (0, 5, Some ''int a;''),
          (3, 6, Some ''int a;'')]
          @ concat (replicate 16 [(0, 10, Some ''int a;''), (1, 10, Some ''int a;''), (2, 10, None), (3, 10, Some ''int a;'')]))
        (map Called [''/src/a.cpp'', ''/src/a.cpp'', ''/src/b.cpp'', ''/src/a.cpp''],
         (onFileClosed diagnosticsHook newFileTracker),
         \<lparr>sent = [], diagnosticsCache = Some Map.empty\<rparr>))
     = [Returned ''file:///src/a.cpp'', Returned ''file:///src/a.cpp'', Rejected ''file:///src/b.cpp'',
        Returned ''file:///src/a.cpp'']"
    by code_simp
  have sent: "sent (snd (snd (run ((@) ''file://'') (drop 7)
        ([(0, 1, Some ''int a;''), (1, 1, Some ''int a;''), (2, 1, None), (0, 5, Some ''int a;''),
          (3, 6, Some ''int a;'')]
          @ concat (replicate 16 [(0, 10, Some ''int a;''), (1, 10, Some ''int a;''), (2, 10, None), (3, 10, Some ''int a;'')]))
        (map Called [''/src/a.cpp'', ''/src/a.cpp'', ''/src/b.cpp'', ''/src/a.cpp''],
         (onFileClosed diagnosticsHook newFileTracker),
         \<lparr>sent = [], diagnosticsCache = Some Map.empty\<rparr>))))
     = [DidOpen ''file:///src/a.cpp'' ''cpp'' ''int a;'']"
    by code_simp
  have waiter: "fst (run ((@) ''file://'') (drop 7) [(0, 7, None), (0, 7, None), (1, 17, None)]
        ([Reading ''file:///src/a.cpp'', Waiting ''file:///src/a.cpp''],
         (onFileClosed diagnosticsHook newFileTracker)\<lparr>inFlightOpens := {''file:///src/a.cpp''}\<rparr>,
         \<lparr>sent = [], diagnosticsCache = Some Map.empty\<rparr>))
     = [Rejected ''file:///src/a.cpp'', Reading ''file:///src/a.cpp'']"
    by code_simp
  show ?thesis
    using closed idle hook rounds reads during final sent waiter
      concurrent_opens_one_didOpen
        [where normalizeToUri = "(@) ''file://''" and uriToPath = "drop 7"
           and uri = "''file:///src/a.cpp''"
           and paths = "[''/src/a.cpp'', ''/src/a.cpp'', ''/src/b.cpp'', ''/src/a.cpp'']"
           and tr = "onFileClosed diagnosticsHook newFileTracker"
           and w = "\<lparr>sent = [], diagnosticsCache = Some Map.empty\<rparr>"
           and ticks = "[(0, 1, Some ''int a;''), (1, 1, Some ''int a;''), (2, 1, None), (0, 5, Some ''int a;''),
          (3, 6, Some ''int a;'')]"
           and rounds = "replicate 16 [(0, 10, Some ''int a;''), (1, 10, Some ''int a;''), (2, 10, None), (3, 10, Some ''int a;'')]"
           and cs = "[Reading ''file:///src/a.cpp'', Waiting ''file:///src/a.cpp'']"
           and opener = 0 and waiter = 1
           and tracker = "(onFileClosed diagnosticsHook newFileTracker)\<lparr>inFlightOpens := {''file:///src/a.cpp''}\<rparr>"
           and outside = "\<lparr>sent = [], diagnosticsCache = Some Map.empty\<rparr>"
           and readTime = 7 and finallyTime = 7 and finallyContent = None and pollTime = 17 and pollContent = None
           and now = 6 and content = None and fileText = "''int a;''"]
    by (simp add: list_all_iff)
qed

text \<open>
  Claim C2 as stated fails when the read fails. With two calls for one file that cannot
  be read, the first call is rejected, and the second, which waited for it, then marks the
  URI itself and reads the file (in the source: "If not open (open failed), fall through to
  try opening ourselves"); when its read fails too, both calls have ended and no
  \<open>didOpen\<close> has been sent.
\<close>

theorem failed_open_waiter_opens_itself_counterexample:
  "fst (run ((@) ''file://'') (drop 7)
        [(0, 1, None), (1, 1, None), (0, 2, None), (0, 2, None), (1, 11, None)]
        (map Called [''/src/a.cpp'', ''/src/a.cpp''], onFileClosed diagnosticsHook newFileTracker, \<lparr>sent = [], diagnosticsCache = Some Map.empty\<rparr>))
     = [Rejected ''file:///src/a.cpp'', Reading ''file:///src/a.cpp'']
   \<and> fst (run ((@) ''file://'') (drop 7)
        [(0, 1, None), (1, 1, None), (0, 2, None), (0, 2, None), (1, 11, None),
         (1, 12, None), (1, 12, None)]
        (map Called [''/src/a.cpp'', ''/src/a.cpp''], onFileClosed diagnosticsHook newFileTracker, \<lparr>sent = [], diagnosticsCache = Some Map.empty\<rparr>))
     = [Rejected ''file:///src/a.cpp'', Rejected ''file:///src/a.cpp'']
   \<and> didOpenCount ''file:///src/a.cpp'' (sent (snd (snd (run ((@) ''file://'') (drop 7)
        [(0, 1, None), (1, 1, None), (0, 2, None), (0, 2, None), (1, 11, None),
         (1, 12, None), (1, 12, None)]
        (map Called [''/src/a.cpp'', ''/src/a.cpp''], onFileClosed diagnosticsHook newFileTracker, \<lparr>sent = [], diagnosticsCache = Some Map.empty\<rparr>))))) = 0"
  by code_simp

text \<open>The language that \<open>didOpen\<close> announces, by the extension of the file.\<close>

lemma getLanguageId_examples:
  "getLanguageId ''/src/a.c'' = ''c''"
  "getLanguageId ''/src/a.CC'' = ''cpp''"
  "getLanguageId ''/src/a.b.cxx'' = ''cpp''"
  "getLanguageId ''/src/a.c++'' = ''cpp''"
  "getLanguageId ''/src/a.h'' = ''cpp''"
  "getLanguageId ''/src/a.Hpp'' = ''cpp''"
  "getLanguageId ''/src/a.m'' = ''objective-c''"
  "getLanguageId ''/src/a.MM'' = ''objective-cpp''"
  "getLanguageId ''/src/Makefile'' = ''cpp''"
  "getLanguageId ''m'' = ''objective-c''"
  "extensionOf ''/src.d/a'' = ''d/a''"
  by code_simp+

subsection \<open>Overlapping calls at the maximum\<close>

text \<open>
  Opening the hundred files one after the other from a new tracker gives the map of
  \<open>atCapacity\<close>.
\<close>

lemma atCapacity_reached:
  "openFiles (fst (foldl (\<lambda>st (now, content, filePath).
             snd (ensureFileOpenAlone ((@) ''file://'') (drop 7) now content filePath st))
          (newFileTracker, \<lparr>sent = [], diagnosticsCache = None\<rparr>)
          (map (\<lambda>i. (int i, Some ''int x;'', ''/src/f'' @ numberToString (int i) @ ''.cpp''))
             [0..<100])))
     = openFiles atCapacity"
  by code_simp

text \<open>
  Claim C1 at a concrete input. A hundred files are open, the maximum. Two calls for two
  new files are made together (as \<open>openSourceFiles\<close> makes ten at a time): the first one
  evicts one file and starts reading, the second one then finds 99 files, evicts nothing
  and starts reading too; when both reads have ended, both calls have returned and 101
  files are open.
\<close>

theorem concurrent_opens_exceed_maximum:
  "fst (run ((@) ''file://'') (drop 7)
        [(0, 1000, None), (1, 1000, None),
         (0, 1001, Some ''int a;''), (0, 1001, None),
         (1, 1002, Some ''int b;''), (1, 1002, None)]
        ([Called ''/src/a.cpp'', Called ''/src/b.cpp''],
         atCapacity, \<lparr>sent = [], diagnosticsCache = None\<rparr>))
     = [Returned ''file:///src/a.cpp'', Returned ''file:///src/b.cpp'']
   \<and> length (openFiles (fst (snd
     (run ((@) ''file://'') (drop 7)
        [(0, 1000, None), (1, 1000, None),
         (0, 1001, Some ''int a;''), (0, 1001, None),
         (1, 1002, Some ''int b;''), (1, 1002, None)]
        ([Called ''/src/a.cpp'', Called ''/src/b.cpp''],
         atCapacity, \<lparr>sent = [], diagnosticsCache = None\<rparr>))))) = 101
   \<and> maxOpenFiles atCapacity = 100 \<and> length (openFiles atCapacity) = 100"
  by code_simp

section \<open>Properties of lazy initialization\<close>

lemma call_while_in_flight:
  "initializationPromise s \<noteq> None \<Longrightarrow>
   started (snd (ensureClangdInitialized body s)) = started s
   \<and> initializationPromise (snd (ensureClangdInitialized body s)) = initializationPromise s
   \<and> (\<not> isShuttingDown s \<and> \<not> managerReady s \<longrightarrow>
        fst (ensureClangdInitialized body s)
          = (if initializationPromise s = Some AlreadyRejected then ReturnsRejection
             else AwaitsInitialization))"
  by (auto simp: ensureClangdInitialized_def split: option.splits promise.splits)

lemma serverRun_Cons: "serverRun (e # events) s = serverRun events (serverStep s e)"
  by (simp add: serverRun_def)

lemma in_flight_stays:
  assumes "initializationPromise s \<noteq> None" and "\<forall>e \<in> set events. \<not> settles e"
  shows "started (serverRun events s) = started s
    \<and> initializationPromise (serverRun events s) \<noteq> None"
  using assms
proof (induction events arbitrary: s)
  case Nil
  then show ?case by (simp add: serverRun_def)
next
  case (Cons e events)
  from Cons.prems have "started (serverStep s e) = started s
    \<and> initializationPromise (serverStep s e) \<noteq> None"
    by (cases e)
       (auto simp: ensureClangdInitialized_def settles_def
          split: option.splits promise.splits afterStart.splits)
  with Cons.IH [of "serverStep s e"] Cons.prems(2) show ?case
    by (simp add: serverRun_Cons)
qed

lemma idle_step:
  assumes "initializationPromise s = None" and "\<not> isShuttingDown s" and "\<not> managerReady s"
    and "e \<noteq> ShutdownSignal" and "\<forall>body. e \<noteq> Call body"
  shows "initializationPromise (serverStep s e) = None \<and> \<not> isShuttingDown (serverStep s e)
    \<and> \<not> managerReady (serverStep s e) \<and> started (serverStep s e) = started s"
  using assms by (cases e) (auto simp: managerReady_def split: option.splits)

lemma first_call_step:
  assumes "initializationPromise s = None" and "\<not> isShuttingDown s" and "\<not> managerReady s"
  shows "started (serverStep s (Call body))
      = started s + (case body of ReachesStart \<Rightarrow> 1 | ThrowsBeforeStart \<Rightarrow> 0)
    \<and> initializationPromise (serverStep s (Call body)) \<noteq> None"
  using assms by (simp add: ensureClangdInitialized_def split: bodyStart.splits)

lemma burst_starts:
  assumes "initializationPromise s = None" and "\<not> isShuttingDown s" and "\<not> managerReady s"
    and "\<forall>e \<in> set events. \<not> settles e \<and> e \<noteq> ShutdownSignal"
  shows "started (serverRun events s)
    = started s + (case firstCall events of Some ReachesStart \<Rightarrow> 1 | _ \<Rightarrow> 0)"
  using assms
proof (induction events arbitrary: s)
  case Nil
  then show ?case by (simp add: serverRun_def)
next
  case (Cons e events)
  show ?case
  proof (cases "\<exists>body. e = Call body")
    case True
    then obtain body where e: "e = Call body" ..
    from first_call_step [OF Cons.prems(1-3), of body]
    have s1: "started (serverStep s e)
        = started s + (case body of ReachesStart \<Rightarrow> 1 | ThrowsBeforeStart \<Rightarrow> 0)"
      and "initializationPromise (serverStep s e) \<noteq> None"
      by (simp_all add: e)
    from in_flight_stays [OF this(2), of events] Cons.prems(4)
    have "started (serverRun events (serverStep s e)) = started (serverStep s e)"
      by simp
    with s1 show ?thesis
      by (simp add: serverRun_Cons e split: bodyStart.splits)
  next
    case False
    then have nc: "\<forall>body. e \<noteq> Call body" by blast
    from Cons.prems(4) have "e \<noteq> ShutdownSignal" by simp
    from idle_step [OF Cons.prems(1-3) this nc]
    have idle: "initializationPromise (serverStep s e) = None" "\<not> isShuttingDown (serverStep s e)"
      "\<not> managerReady (serverStep s e)" "started (serverStep s e) = started s"
      by simp_all
    from nc have "firstCall (e # events) = firstCall events"
      by (cases e) simp_all
    with Cons.IH [OF idle(1-3)] Cons.prems(4) idle(4) show ?thesis
      by (simp add: serverRun_Cons)
  qed
qed

lemma pending_stays:
  assumes "initializationPromise s = Some (PendingAt stage)" and "\<forall>e \<in> set events. \<not> settles e"
  shows "\<exists>stage'. initializationPromise (serverRun events s) = Some (PendingAt stage')"
  using assms
proof (induction events arbitrary: s stage)
  case Nil
  then show ?case by (simp add: serverRun_def)
next
  case (Cons e events)
  from Cons.prems have "\<exists>stage'. initializationPromise (serverStep s e) = Some (PendingAt stage')"
    by (cases e)
       (auto simp: ensureClangdInitialized_def settles_def
          split: option.splits promise.splits afterStart.splits)
  then obtain stage' where "initializationPromise (serverStep s e) = Some (PendingAt stage')" ..
  from Cons.IH [OF this] Cons.prems(2) show ?case
    by (simp add: serverRun_Cons)
qed

lemma first_call_pending:
  assumes "initializationPromise s = None" and "\<not> isShuttingDown s" and "\<not> managerReady s"
    and "\<forall>e \<in> set events. \<not> settles e \<and> e \<noteq> ShutdownSignal"
    and "firstCall events = Some ReachesStart"
  shows "\<exists>stage. initializationPromise (serverRun events s) = Some (PendingAt stage)"
  using assms
proof (induction events arbitrary: s)
  case Nil
  then show ?case by simp
next
  case (Cons e events)
  show ?case
  proof (cases "\<exists>body. e = Call body")
    case True
    with Cons.prems(5) have e: "e = Call ReachesStart" by auto
    from Cons.prems(1-3) have "initializationPromise (serverStep s e) = Some (PendingAt AwaitingStart)"
      by (simp add: e ensureClangdInitialized_def)
    from pending_stays [OF this, of events] Cons.prems(4) show ?thesis
      by (simp add: serverRun_Cons)
  next
    case False
    then have nc: "\<forall>body. e \<noteq> Call body" by blast
    from Cons.prems(4) have "e \<noteq> ShutdownSignal" by simp
    from idle_step [OF Cons.prems(1-3) this nc]
    have idle: "initializationPromise (serverStep s e) = None" "\<not> isShuttingDown (serverStep s e)"
      "\<not> managerReady (serverStep s e)"
      by simp_all
    from nc Cons.prems(5) have "firstCall events = Some ReachesStart"
      by (cases e) simp_all
    from Cons.IH [OF idle _ this] Cons.prems(4) show ?thesis
      by (simp add: serverRun_Cons)
  qed
qed

text \<open>
  Claim C4, as amended. Take a server with no initialization promise, not shutting down
  and not ready, and any sequence of events in which the initialization does not end (nor a
  termination signal arrive): however many calls of \<open>ensureClangdInitialized\<close> there are,
  and whether or not \<open>start()\<close> has resolved in between, at most one manager has been
  constructed and started, and exactly one when there is a call and the body of the first
  call gets as far as \<open>start()\<close>. A call made while the promise is pending starts nothing
  and leaves the promise in place, and unless the server is shutting down or already ready
  it returns that promise to its caller, who awaits it.
\<close>

theorem concurrent_initialization_starts_once:
  "(initializationPromise s = None \<and> \<not> isShuttingDown s \<and> \<not> managerReady s
      \<and> (\<forall>e \<in> set events. \<not> settles e \<and> e \<noteq> ShutdownSignal)
      \<longrightarrow> started (serverRun events s) \<le> Suc (started s)
          \<and> (firstCall events = Some ReachesStart \<longrightarrow>
                started (serverRun events s) = Suc (started s)
                \<and> (\<exists>stage. initializationPromise (serverRun events s) = Some (PendingAt stage))))
   \<and> (initializationPromise s' = Some (PendingAt stage') \<longrightarrow>
         started (snd (ensureClangdInitialized body s')) = started s'
         \<and> initializationPromise (snd (ensureClangdInitialized body s')) = initializationPromise s'
         \<and> clangdManager (snd (ensureClangdInitialized body s')) = clangdManager s'
         \<and> (\<not> isShuttingDown s' \<and> \<not> managerReady s' \<longrightarrow>
              fst (ensureClangdInitialized body s') = AwaitsInitialization))"
proof -
  have "started (serverRun events s) \<le> Suc (started s)
          \<and> (firstCall events = Some ReachesStart \<longrightarrow>
                started (serverRun events s) = Suc (started s)
                \<and> (\<exists>stage. initializationPromise (serverRun events s) = Some (PendingAt stage)))"
    if idle: "initializationPromise s = None" "\<not> isShuttingDown s" "\<not> managerReady s"
      and quiet: "\<forall>e \<in> set events. \<not> settles e \<and> e \<noteq> ShutdownSignal"
  proof -
    have "\<exists>stage. initializationPromise (serverRun events s) = Some (PendingAt stage)"
      if "firstCall events = Some ReachesStart"
      using first_call_pending [OF idle quiet that] .
    with burst_starts [OF idle quiet] show ?thesis
      by (auto split: option.splits bodyStart.splits)
  qed
  moreover have "started (snd (ensureClangdInitialized body s')) = started s'
         \<and> initializationPromise (snd (ensureClangdInitialized body s')) = initializationPromise s'
         \<and> clangdManager (snd (ensureClangdInitialized body s')) = clangdManager s'
         \<and> (\<not> isShuttingDown s' \<and> \<not> managerReady s' \<longrightarrow>
              fst (ensureClangdInitialized body s') = AwaitsInitialization)"
    if "initializationPromise s' = Some (PendingAt stage')"
    using that by (simp add: ensureClangdInitialized_def)
  ultimately show ?thesis
    by blast
qed

theorem concurrent_initialization_starts_once_witness:
  "list_all (\<lambda>e. \<not> settles e \<and> e \<noteq> ShutdownSignal)
     [Crashed, Call ReachesStart, Call ReachesStart,
      StartResolved ReachesOpenSourceFiles, Call ThrowsBeforeStart, Crashed, Call ReachesStart]
   \<and> firstCall [Crashed, Call ReachesStart, Call ReachesStart,
       StartResolved ReachesOpenSourceFiles, Call ThrowsBeforeStart, Crashed, Call ReachesStart]
     = Some ReachesStart
   \<and> serverRun [Crashed, Call ReachesStart, Call ReachesStart,
        StartResolved ReachesOpenSourceFiles, Call ThrowsBeforeStart, Crashed, Call ReachesStart]
        idleServer
       = \<lparr>isShuttingDown = False, clangdManager = Some False,
          initializationPromise = Some (PendingAt AwaitingOpenSourceFiles), started = 1\<rparr>
   \<and> ensureClangdInitialized ReachesStart (serverRun [Call ReachesStart] idleServer)
       = (AwaitsInitialization,
          \<lparr>isShuttingDown = False, clangdManager = Some False,
            initializationPromise = Some (PendingAt AwaitingStart), started = 1\<rparr>)"
  using concurrent_initialization_starts_once
    [where s = idleServer
       and events = "[Crashed, Call ReachesStart, Call ReachesStart,
         StartResolved ReachesOpenSourceFiles, Call ThrowsBeforeStart, Crashed,
         Call ReachesStart]"
       and s' = "serverRun [Call ReachesStart] idleServer" and body = ReachesStart
       and stage' = AwaitingStart]
  by (simp add: serverRun_def idleServer_def ensureClangdInitialized_def managerReady_def
      settles_def)

text \<open>
  Claim C4 as stated fails when the body throws before \<open>start()\<close> (\<open>process.cwd()\<close>
  fails in \<open>detectConfiguration\<close>, say): three calls made one after the other, with
  nothing in between, start no manager at all.
\<close>

theorem initialization_throws_before_start_counterexample:
  "started (serverRun [Call ThrowsBeforeStart, Call ThrowsBeforeStart, Call ThrowsBeforeStart]
      idleServer) \<noteq> 1
   \<and> serverRun [Call ThrowsBeforeStart, Call ThrowsBeforeStart, Call ThrowsBeforeStart] idleServer
       = \<lparr>isShuttingDown = False, clangdManager = None,
          initializationPromise = Some AlreadyRejected, started = 0\<rparr>"
  by (simp add: serverRun_def idleServer_def ensureClangdInitialized_def managerReady_def)

text \<open>
  The other ways a call ends, and the life of the promise. A call made while the server
  shuts down throws, and a call that finds the manager ready returns at once; neither
  changes anything. When \<open>start()\<close> rejects, or when the rest of the body has ended and
  the subprocess has crashed since, the \<open>finally\<close> block has cleared the promise and the next
  call starts a manager again.
\<close>

lemma ensureClangdInitialized_examples:
  "ensureClangdInitialized body (idleServer\<lparr>isShuttingDown := True\<rparr>)
     = (Throws, idleServer\<lparr>isShuttingDown := True\<rparr>)"
  "ensureClangdInitialized body (idleServer\<lparr>clangdManager := Some True\<rparr>)
     = (ReturnsReady, idleServer\<lparr>clangdManager := Some True\<rparr>)"
  "ensureClangdInitialized ReachesStart idleServer
     = (AwaitsInitialization,
        \<lparr>isShuttingDown = False, clangdManager = Some False,
          initializationPromise = Some (PendingAt AwaitingStart), started = 1\<rparr>)"
  "ensureClangdInitialized ThrowsBeforeStart idleServer
     = (ReturnsRejection,
        \<lparr>isShuttingDown = False, clangdManager = None,
          initializationPromise = Some AlreadyRejected, started = 0\<rparr>)"
  "ensureClangdInitialized body (idleServer\<lparr>initializationPromise := Some AlreadyRejected\<rparr>)
     = (ReturnsRejection, idleServer\<lparr>initializationPromise := Some AlreadyRejected\<rparr>)"
  by (simp_all add: ensureClangdInitialized_def idleServer_def managerReady_def)

lemma serverRun_examples:
  "serverRun [Call ReachesStart, StartRejected, Call ReachesStart] idleServer
     = \<lparr>isShuttingDown = False, clangdManager = Some False,
         initializationPromise = Some (PendingAt AwaitingStart), started = 2\<rparr>"
  "serverRun [Call ReachesStart, StartResolved ReachesOpenSourceFiles, Call ReachesStart,
       OpenSourceFilesSettled, Call ReachesStart] idleServer
     = \<lparr>isShuttingDown = False, clangdManager = Some True, initializationPromise = None,
         started = 1\<rparr>"
  "serverRun [Call ReachesStart, StartResolved ReachesOpenSourceFiles, OpenSourceFilesSettled,
       Crashed, Call ReachesStart, Call ReachesStart] idleServer
     = \<lparr>isShuttingDown = False, clangdManager = Some False,
         initializationPromise = Some (PendingAt AwaitingStart), started = 2\<rparr>"
  "serverRun [Call ReachesStart, StartResolved ThrowsAfterStart, Call ReachesStart] idleServer
     = \<lparr>isShuttingDown = False, clangdManager = Some True, initializationPromise = None,
         started = 1\<rparr>"
  "serverRun [Call ReachesStart, OpenSourceFilesSettled, StartResolved ReachesOpenSourceFiles,
       StartRejected, ShutdownSignal, Call ReachesStart] idleServer
     = \<lparr>isShuttingDown = True, clangdManager = Some True,
         initializationPromise = Some (PendingAt AwaitingOpenSourceFiles), started = 1\<rparr>"
  "serverRun [Crashed, StartRejected, StartResolved ReachesOpenSourceFiles,
       OpenSourceFilesSettled] idleServer = idleServer"
  by (simp_all add: serverRun_def ensureClangdInitialized_def idleServer_def managerReady_def)

lemma settles_firstCall_examples:
  "settles StartRejected" "settles OpenSourceFilesSettled" "settles (StartResolved ThrowsAfterStart)"
  "\<not> settles (StartResolved ReachesOpenSourceFiles)" "\<not> settles (Call body)"
  "\<not> settles Crashed" "\<not> settles ShutdownSignal"
  "firstCall [Crashed, StartRejected, Call ThrowsBeforeStart, Call ReachesStart]
     = Some ThrowsBeforeStart"
  "firstCall [Crashed, ShutdownSignal] = None"
  by (simp_all add: settles_def)

section \<open>Properties of the watcher\<close>

lemma onChange_shutting_down: "shuttingDown s \<Longrightarrow> onChange s = s"
  by (simp add: onChange_def)

lemma onChange_arms:
  assumes "singleDeadline s" and "\<not> shuttingDown s"
  shows "timers (onChange s) = [(nextTimer s, clock s + 1000)]
    \<and> debounceTimer (onChange s) = Some (nextTimer s)
    \<and> clock (onChange s) = clock s \<and> reindexed (onChange s) = reindexed s
    \<and> \<not> shuttingDown (onChange s)"
  using assms
  by (auto simp: singleDeadline_def onChange_def clearTimeout_def setDebounceTimer_def
      split: option.splits)

lemma elapse_before_due:
  assumes "timers s = [(timer, due)]" and "clock s + delay < due"
  shows "elapse delay s = s\<lparr>clock := clock s + delay\<rparr>"
  using assms by (simp add: elapse_def Let_def)

lemma elapse_due:
  assumes "timers s = [(timer, due)]" and "due \<le> clock s + delay"
  shows "timers (elapse delay s) = [] \<and> reindexed (elapse delay s) = reindexed s @ [due]"
  using assms by (simp add: elapse_def Let_def)

lemma singleDeadline_step:
  assumes "singleDeadline s"
  shows "singleDeadline (watchStep s e)"
proof (cases e)
  case Change
  show ?thesis
  proof (cases "shuttingDown s")
    case True
    with assms Change show ?thesis by (simp add: onChange_def)
  next
    case False
    from onChange_arms [OF assms False] Change show ?thesis
      by (simp add: singleDeadline_def)
  qed
next
  case (Wait delay)
  from assms show ?thesis
    unfolding singleDeadline_def
  proof
    assume "timers s = []"
    then show "timers (watchStep s e) = [] \<or>
      (\<exists>timer due. timers (watchStep s e) = [(timer, due)] \<and> debounceTimer (watchStep s e) = Some timer)"
      by (simp add: Wait elapse_def Let_def)
  next
    assume "\<exists>timer due. timers s = [(timer, due)] \<and> debounceTimer s = Some timer"
    then obtain timer due where t: "timers s = [(timer, due)]" "debounceTimer s = Some timer"
      by blast
    show "timers (watchStep s e) = [] \<or>
      (\<exists>timer due. timers (watchStep s e) = [(timer, due)] \<and> debounceTimer (watchStep s e) = Some timer)"
    proof (cases "due \<le> clock s + delay")
      case True
      with t show ?thesis by (simp add: Wait elapse_def Let_def)
    next
      case False
      with t show ?thesis by (simp add: Wait elapse_def Let_def)
    qed
  qed
next
  case Shutdown
  with assms show ?thesis by (simp add: singleDeadline_def)
qed

lemma watchRun_append: "watchRun (xs @ ys) s = watchRun ys (watchRun xs s)"
  by (simp add: watchRun_def)

lemma singleDeadline_run: "singleDeadline s \<Longrightarrow> singleDeadline (watchRun events s)"
  by (induction events arbitrary: s) (simp_all add: watchRun_def singleDeadline_step)

lemma burst_snoc: "burst (gaps @ [gap]) = burst gaps @ [Wait gap, Change]"
  by (simp add: burst_def)

lemma burst_pending:
  assumes "singleDeadline s" and "\<not> shuttingDown s" and "\<forall>gap \<in> set gaps. gap < 1000"
  shows "\<exists>timer. timers (watchRun (burst gaps) s) = [(timer, clock s + sum_list gaps + 1000)]
    \<and> clock (watchRun (burst gaps) s) = clock s + sum_list gaps
    \<and> reindexed (watchRun (burst gaps) s) = reindexed s
    \<and> \<not> shuttingDown (watchRun (burst gaps) s)"
  using assms(3)
proof (induction gaps rule: rev_induct)
  case Nil
  from onChange_arms [OF assms(1,2)] show ?case
    by (simp add: burst_def watchRun_def)
next
  case (snoc gap gaps)
  let ?s1 = "watchRun (burst gaps) s"
  from snoc obtain timer where s1: "timers ?s1 = [(timer, clock s + sum_list gaps + 1000)]"
    "clock ?s1 = clock s + sum_list gaps" "reindexed ?s1 = reindexed s" "\<not> shuttingDown ?s1"
    by auto
  from snoc.prems have gap: "gap < 1000" by simp
  let ?s2 = "elapse gap ?s1"
  from gap s1 have e: "?s2 = ?s1\<lparr>clock := clock ?s1 + gap\<rparr>"
    by (intro elapse_before_due [of _ timer "clock s + sum_list gaps + 1000"]) simp_all
  have sd: "singleDeadline ?s2"
    using singleDeadline_step [OF singleDeadline_run [OF assms(1), of "burst gaps"], of "Wait gap"]
    by simp
  from e s1 have s2: "clock ?s2 = clock s + sum_list gaps + gap" "reindexed ?s2 = reindexed s"
    "\<not> shuttingDown ?s2"
    by simp_all
  from onChange_arms [OF sd s2(3)] s2
  have "timers (onChange ?s2) = [(nextTimer ?s2, clock s + sum_list (gaps @ [gap]) + 1000)]
    \<and> clock (onChange ?s2) = clock s + sum_list (gaps @ [gap])
    \<and> reindexed (onChange ?s2) = reindexed s \<and> \<not> shuttingDown (onChange ?s2)"
    by simp
  moreover have "watchRun (burst (gaps @ [gap])) s = onChange ?s2"
    by (simp add: burst_snoc watchRun_append) (simp add: watchRun_def)
  ultimately show ?case by auto
qed

lemma burst_fires_once:
  assumes "singleDeadline s" and "\<not> shuttingDown s" and "\<forall>gap \<in> set gaps. gap < 1000"
  shows "reindexed (watchRun (burst gaps @ [Wait 1000]) s)
      = reindexed s @ [clock s + sum_list gaps + 1000]
    \<and> timers (watchRun (burst gaps @ [Wait 1000]) s) = []"
proof -
  let ?s1 = "watchRun (burst gaps) s"
  from burst_pending [OF assms] obtain timer where
    s1: "timers ?s1 = [(timer, clock s + sum_list gaps + 1000)]"
    "clock ?s1 = clock s + sum_list gaps" "reindexed ?s1 = reindexed s"
    by auto
  from s1 have "clock s + sum_list gaps + 1000 \<le> clock ?s1 + 1000" by simp
  from elapse_due [OF s1(1) this] s1(3)
  show ?thesis
    by (simp add: watchRun_append) (simp add: watchRun_def)
qed

text \<open>
  Claim C7. While the server is not shutting down, a change event leaves exactly one timer
  pending, due 1000 ms later: the timer armed before it, if any, is cancelled. So after a
  burst of change events, each less than 1000 ms after the one before, the re-index
  action runs once, 1000 ms after the last event of the burst, and no timer is left. A
  change event that arrives while the server is shutting down changes nothing. At every
  moment at most one timer is pending.
\<close>

theorem debounce_single_deadline:
  "(singleDeadline s \<and> \<not> shuttingDown s \<longrightarrow>
      timers (onChange s) = [(nextTimer s, clock s + 1000)])
   \<and> (singleDeadline s \<and> \<not> shuttingDown s \<and> (\<forall>gap \<in> set gaps. gap < 1000) \<longrightarrow>
        reindexed (watchRun (burst gaps @ [Wait 1000]) s)
          = reindexed s @ [clock s + sum_list gaps + 1000]
        \<and> timers (watchRun (burst gaps @ [Wait 1000]) s) = [])
   \<and> (shuttingDown s \<longrightarrow> onChange s = s)
   \<and> singleDeadline (watchRun events newWatcher)"
proof -
  have "singleDeadline newWatcher"
    by (simp add: singleDeadline_def newWatcher_def)
  from singleDeadline_run [OF this, of events]
  show ?thesis
    using onChange_arms [of s] burst_fires_once [of s gaps] onChange_shutting_down [of s]
    by blast
qed

theorem debounce_single_deadline_witness:
  "watchRun (burst [300, 999, 20] @ [Wait 1000]) newWatcher
     = \<lparr>clock = 2319, timers = [], nextTimer = 4, debounceTimer = Some 3,
        shuttingDown = False, reindexed = [2319]\<rparr>
   \<and> watchRun [Change, Wait 200, Shutdown, Change, Wait 100] newWatcher
     = \<lparr>clock = 300, timers = [(0, 1000)], nextTimer = 1, debounceTimer = Some 0,
        shuttingDown = True, reindexed = []\<rparr>"
  using debounce_single_deadline
    [where s = newWatcher and gaps = "[300, 999, 20]"
       and events = "[Change, Wait 200, Shutdown, Change, Wait 100]"]
  by (simp add: watchRun_def burst_def newWatcher_def onChange_def elapse_def
      clearTimeout_def setDebounceTimer_def)

end
